theory Spec2Isabelle
  imports Complex_Main "HOL-Library.AList"
begin

section \<open>Data model\<close>

text \<open>
  The fields of \<^verbatim>\<open>chrome.tabs.Tab\<close> that the code reads. An optional field is an
  \<open>option\<close>; \<open>audible\<close> is only ever tested for truthiness, so an absent value is
  \<open>False\<close>. \<open>closedAt\<close> is the expando property that \<^verbatim>\<open>wrangleTabs\<close> writes on a
  tab before it is archived.
\<close>

record tab =
  tab_id :: "int option"
  url :: "string option"
  title :: "string option"
  pinned :: bool
  audible :: bool
  groupId :: "int option"
  windowId :: "int option"
  closedAt :: "int option"

record window =
  win_id :: "int option"
  focused :: bool

text \<open>The settings the code reads through \<^verbatim>\<open>settings.get\<close>.\<close>

record settings =
  stayOpen :: int
  minTabs :: int
  minTabsStrategy :: string
  lockedIds :: "int list"
  whitelist :: "string list"
  filterAudio :: bool
  filterGroupedTabs :: bool
  maxTabs :: int
  wrangleOption :: string
  purgeClosedTabs :: bool

text \<open>
  The keys of the \<^verbatim>\<open>tabTimes\<close> object are \<^verbatim>\<open>String(tab.id)\<close>: the decimal string of a
  tab id, or the string \<^verbatim>\<open>"undefined"\<close> for a tab without an id. \<^verbatim>\<open>parseInt\<close> reads the
  number back and gives NaN (\<open>None\<close>) on \<^verbatim>\<open>"undefined"\<close>.
\<close>

datatype tabKey = IdKey int | UndefinedKey

fun String_of_id :: "int option \<Rightarrow> tabKey" where
  "String_of_id (Some i) = IdKey i"
| "String_of_id None = UndefinedKey"

fun parseInt :: "tabKey \<Rightarrow> int option" where
  "parseInt (IdKey i) = Some i"
| "parseInt UndefinedKey = None"

text \<open>
  A JavaScript object used as a dictionary is an association list; \<open>map_of\<close> reads a
  property, \<open>AList.update\<close> assigns one and \<open>AList.delete\<close> deletes one.
\<close>

type_synonym tabTimes = "(tabKey \<times> int) list"
type_synonym tabTimesByUrl = "(string \<times> int) list"

section \<open>The in-memory cache (tabTimesCache.ts)\<close>

record cache =
  memoryTabTimes :: tabTimes
  memoryTabTimesByUrl :: tabTimesByUrl
  isInitialized :: bool

definition initTabTimes :: "tabTimes \<Rightarrow> tabTimesByUrl option \<Rightarrow> cache \<Rightarrow> cache" where
  "initTabTimes initialData initialUrlData c =
     (let c1 = c\<lparr>memoryTabTimes := initialData\<rparr>;
          c2 = (case initialUrlData of
                  Some d \<Rightarrow> c1\<lparr>memoryTabTimesByUrl := d\<rparr>
                | None \<Rightarrow> c1)
      in c2\<lparr>isInitialized := True\<rparr>)"

definition getTabTimes :: "cache \<Rightarrow> tabTimes" where
  "getTabTimes c = memoryTabTimes c"

definition setTabTimeSilent :: "tabKey \<Rightarrow> int \<Rightarrow> tabTimes \<Rightarrow> tabTimes" where
  "setTabTimeSilent tabId time tt = AList.update tabId time tt"

definition setTabTimeByUrlSilent :: "string \<Rightarrow> int \<Rightarrow> tabTimesByUrl \<Rightarrow> tabTimesByUrl" where
  "setTabTimeByUrlSilent u time tu = AList.update u time tu"

definition cleanUpTabTimesByUrl :: "string list \<Rightarrow> tabTimesByUrl \<Rightarrow> tabTimesByUrl" where
  "cleanUpTabTimesByUrl aliveUrls tu = filter (\<lambda>(u, t). u \<in> set aliveUrls) tu"

section \<open>Which tabs are past the cutoff\<close>

fun getTabsOlderThan :: "tabTimes \<Rightarrow> int \<Rightarrow> int option list" where
  "getTabsOlderThan [] time = []"
| "getTabsOlderThan ((key, value) # rest) time =
     (if time = 0 \<or> value < time
      then parseInt key # getTabsOlderThan rest time
      else getTabsOlderThan rest time)"


section \<open>Which tabs may be closed (tabUtil.ts)\<close>

text \<open>\<^verbatim>\<open>String.prototype.indexOf\<close>: the first position of \<open>w\<close> in \<open>s\<close>, or \<open>-1\<close>.\<close>

fun startsWith :: "string \<Rightarrow> string \<Rightarrow> bool" where
  "startsWith s [] = True"
| "startsWith [] (c # cs) = False"
| "startsWith (x # xs) (c # cs) = (x = c \<and> startsWith xs cs)"

fun indexOf :: "string \<Rightarrow> string \<Rightarrow> int" where
  "indexOf [] w = (if w = [] then 0 else -1)"
| "indexOf (x # xs) w =
     (if startsWith (x # xs) w then 0
      else (let r = indexOf xs w in if r = -1 then -1 else r + 1))"

fun getWhitelistMatch :: "string option \<Rightarrow> string list \<Rightarrow> string option" where
  "getWhitelistMatch None wl = None"
| "getWhitelistMatch (Some u) [] = None"
| "getWhitelistMatch (Some u) (w # ws) =
     (if indexOf u w \<noteq> -1 then Some w else getWhitelistMatch (Some u) ws)"

text \<open>\<^verbatim>\<open>!!tabWhitelistMatch\<close>: \<^verbatim>\<open>null\<close> and the empty string are falsy.\<close>

fun truthy_string :: "string option \<Rightarrow> bool" where
  "truthy_string None = False"
| "truthy_string (Some s) = (s \<noteq> [])"

definition isTabLocked :: "tab \<Rightarrow> bool \<Rightarrow> bool \<Rightarrow> int set \<Rightarrow> string list \<Rightarrow> bool" where
  "isTabLocked t fAudio fGrouped locked wl =
     (let tabWhitelistMatch = getWhitelistMatch (url t) wl;
          hasLockedId = (case tab_id t of None \<Rightarrow> False | Some i \<Rightarrow> i \<in> locked)
      in pinned t \<or>
         truthy_string tabWhitelistMatch \<or>
         (tab_id t \<noteq> None \<and> hasLockedId) \<or>
         (fGrouped \<and> (case groupId t of None \<Rightarrow> False | Some g \<Rightarrow> g > 0)) \<or>
         (audible t \<and> fAudio))"

definition createShouldTabBeClosedFilter :: "settings \<Rightarrow> tab \<Rightarrow> bool" where
  "createShouldTabBeClosedFilter cfg =
     (let fAudio = filterAudio cfg;
          fGrouped = filterGroupedTabs cfg;
          locked = set (lockedIds cfg);
          wl = whitelist cfg
      in (\<lambda>t. \<not> isTabLocked t fAudio fGrouped locked wl))"

section \<open>Candidate selection for one group of tabs\<close>

text \<open>
  \<^verbatim>\<open>findTabsToCloseCandidates\<close> is a closure inside \<^verbatim>\<open>checkToClose\<close>; the variables it
  captures (\<^verbatim>\<open>shouldTabBeClosed\<close>, \<^verbatim>\<open>toCut\<close>, \<^verbatim>\<open>minTabs\<close>, \<^verbatim>\<open>lockedIds\<close>,
  \<^verbatim>\<open>updatedAt\<close>) are parameters here, and the \<^verbatim>\<open>tabTimes\<close> object it mutates is
  passed in and returned.
\<close>

text \<open>The loop of the floor branch: lines 621 to 624.\<close>

fun resetLoop :: "bool \<Rightarrow> int \<Rightarrow> tab list \<Rightarrow> tabTimes \<Rightarrow> tabTimes" where
  "resetLoop resetIfNoCandidates updatedAt [] tt = tt"
| "resetLoop resetIfNoCandidates updatedAt (t # ts) tt =
     resetLoop resetIfNoCandidates updatedAt ts
       (case tab_id t of
          Some tabId \<Rightarrow>
            if resetIfNoCandidates then setTabTimeSilent (IdKey tabId) updatedAt tt else tt
        | None \<Rightarrow> tt)"

text \<open>The loop over the trimmed list: lines 634 to 647.\<close>

fun candidatesLoop :: "int set \<Rightarrow> int \<Rightarrow> tab list \<Rightarrow> tabTimes \<Rightarrow> tab list \<times> tabTimes" where
  "candidatesLoop locked updatedAt [] tt = ([], tt)"
| "candidatesLoop locked updatedAt (t # ts) tt =
     (case tab_id t of
        None \<Rightarrow> candidatesLoop locked updatedAt ts tt
      | Some tabId \<Rightarrow>
          if tabId \<in> locked
          then candidatesLoop locked updatedAt ts (setTabTimeSilent (IdKey tabId) updatedAt tt)
          else (let (cs, tt') = candidatesLoop locked updatedAt ts tt in (t # cs, tt')))"

text \<open>\<^verbatim>\<open>xs.splice(0, n)\<close> returns the first \<open>n\<close> elements, none when \<open>n\<close> is negative.\<close>

definition splice0 :: "'a list \<Rightarrow> int \<Rightarrow> 'a list" where
  "splice0 xs n = take (nat n) xs"

definition inToCut :: "int option set \<Rightarrow> tab \<Rightarrow> bool" where
  "inToCut toCut t = (case tab_id t of None \<Rightarrow> True | Some i \<Rightarrow> Some i \<in> toCut)"

definition findTabsToCloseCandidates ::
  "settings \<Rightarrow> int option set \<Rightarrow> int \<Rightarrow> tab list \<Rightarrow> bool \<Rightarrow> tabTimes \<Rightarrow> tab list \<times> tabTimes"
where
  "findTabsToCloseCandidates cfg toCut updatedAt tabs0 resetIfNoCandidates tt =
     (let tabs = filter (createShouldTabBeClosedFilter cfg) tabs0;
          tabsToCut = filter (inToCut toCut) tabs
      in if int (length tabs) - minTabs cfg \<le> 0
         then ([], resetLoop resetIfNoCandidates updatedAt tabs tt)
         else (let tabsToCut' = splice0 tabsToCut (int (length tabs) - minTabs cfg)
               in if length tabsToCut' = 0 then ([], tt)
                  else candidatesLoop (set (lockedIds cfg)) updatedAt tabsToCut' tt))"


section \<open>Effects and failures\<close>

text \<open>
  A rejected promise or a thrown exception is an \<open>error\<close>; a fallible step returns
  \<open>error + 'a\<close>. What the code asks of the platform is a list of events, oldest first.
  The type \<open>'p\<close> is the persisted \<^verbatim>\<open>persist:localStorage\<close> object. The assignment
  \<^verbatim>\<open>startupComplete = true\<close> is entered in the same list (\<open>SetStartupComplete\<close>), so
  that its place among the effects of \<^verbatim>\<open>startup\<close> is part of the model.
\<close>

datatype error = Rejected | TypeError

datatype 'p event =
    StorageLocalSetTabTimes tabTimes tabTimesByUrl
  | StorageLocalSetPersist 'p
  | TabsRemove "int list"
  | AlarmsCreate string rat
  | SetIcon string
  | UpdateClosedCount
  | SetStartupComplete
  | ConsoleLogTrimmed "string option list"
  | ConsoleWarn
  | ConsoleError error

definition forceSyncTabTimes :: "cache \<Rightarrow> 'p event list" where
  "forceSyncTabTimes c =
     (if \<not> isInitialized c then []
      else [StorageLocalSetTabTimes (memoryTabTimes c) (memoryTabTimesByUrl c)])"

section \<open>The evaluation cycle inside the lock (checkToClose, lines 582 to 709)\<close>

definition refreshActiveTabs :: "int \<Rightarrow> tab list \<Rightarrow> tabTimes \<Rightarrow> tabTimes" where
  "refreshActiveTabs updatedAt activeTabs tt =
     fold (\<lambda>t. setTabTimeSilent (String_of_id (tab_id t)) updatedAt) activeTabs tt"

definition refreshAudibleTabs :: "settings \<Rightarrow> int \<Rightarrow> tab list \<Rightarrow> tabTimes \<Rightarrow> tabTimes" where
  "refreshAudibleTabs cfg updatedAt allTabs tt =
     (if filterAudio cfg
      then fold (\<lambda>t acc. if audible t
                          then setTabTimeSilent (String_of_id (tab_id t)) updatedAt acc
                          else acc) allTabs tt
      else tt)"

text \<open>The \<^verbatim>\<open>reduce\<close> that groups \<^verbatim>\<open>allTabs\<close> by window id, lines 661 to 670.\<close>

definition tabsByWindowId :: "tab list \<Rightarrow> (int \<times> tab list) list" where
  "tabsByWindowId allTabs =
     fold (\<lambda>t acc. case windowId t of
                      None \<Rightarrow> acc
                    | Some w \<Rightarrow>
                        AList.update w
                          ((case map_of acc w of None \<Rightarrow> [] | Some ts \<Rightarrow> ts) @ [t]) acc)
          allTabs []"

text \<open>\<^verbatim>\<open>tabsByWindowId[win.id] || []\<close>\<close>

definition tabsOfWindow :: "(int \<times> tab list) list \<Rightarrow> int \<Rightarrow> tab list" where
  "tabsOfWindow byWin w = (case map_of byWin w of None \<Rightarrow> [] | Some ts \<Rightarrow> ts)"

text \<open>
  \<^verbatim>\<open>windows.map(...).reduce(concat)\<close>: the callback runs window by window, each call
  seeing the \<^verbatim>\<open>tabTimes\<close> the calls before it left.
\<close>

fun perWindowCandidates ::
  "settings \<Rightarrow> int option set \<Rightarrow> int \<Rightarrow> (int \<times> tab list) list \<Rightarrow> window list \<Rightarrow> tabTimes
     \<Rightarrow> tab list \<times> tabTimes"
where
  "perWindowCandidates cfg toCut updatedAt byWin [] tt = ([], tt)"
| "perWindowCandidates cfg toCut updatedAt byWin (win # wins) tt =
     (let (cs, tt1) =
            (case win_id win of
               None \<Rightarrow> ([], tt)
             | Some w \<Rightarrow>
                 findTabsToCloseCandidates cfg toCut updatedAt (tabsOfWindow byWin w)
                   (focused win) tt);
          (rest, tt2) = perWindowCandidates cfg toCut updatedAt byWin wins tt1
      in (cs @ rest, tt2))"

text \<open>Lines 684 to 689: delete the entries of tabs that are no longer alive.\<close>

definition cleanUpTabTimes :: "tab list \<Rightarrow> tabTimes \<Rightarrow> tabTimes" where
  "cleanUpTabTimes allTabs tt =
     (let aliveTabIds = set (map (\<lambda>t. String_of_id (tab_id t)) allTabs)
      in filter (\<lambda>(k, v). k \<in> aliveTabIds) tt)"

text \<open>\<^verbatim>\<open>tabTimes[String(tab.id)] || updatedAt\<close>: a missing entry and the time 0 are falsy.\<close>

definition timeOrDefault :: "tabTimes \<Rightarrow> tabKey \<Rightarrow> int \<Rightarrow> int" where
  "timeOrDefault tt k updatedAt =
     (case map_of tt k of None \<Rightarrow> updatedAt | Some v \<Rightarrow> if v = 0 then updatedAt else v)"

text \<open>Lines 691 to 702; the state is \<^verbatim>\<open>(tabTimes, tabTimesByUrl, aliveUrls)\<close>.\<close>

fun recomputeLoop ::
  "int \<Rightarrow> tab list \<Rightarrow> tabTimes \<times> tabTimesByUrl \<times> string list
     \<Rightarrow> tabTimes \<times> tabTimesByUrl \<times> string list"
where
  "recomputeLoop updatedAt [] st = st"
| "recomputeLoop updatedAt (t # ts) (tt, tu, aliveUrls) =
     recomputeLoop updatedAt ts
       (case tab_id t of
          None \<Rightarrow> (tt, tu, aliveUrls)
        | Some i \<Rightarrow>
            (let time = timeOrDefault tt (IdKey i) updatedAt;
                 tt' = setTabTimeSilent (IdKey i) time tt
             in case url t of
                  None \<Rightarrow> (tt', tu, aliveUrls)
                | Some u \<Rightarrow>
                    if u = [] then (tt', tu, aliveUrls)
                    else (tt', setTabTimeByUrlSilent u time tu, aliveUrls @ [u])))"

definition recomputeAndPrune :: "int \<Rightarrow> tab list \<Rightarrow> cache \<Rightarrow> cache" where
  "recomputeAndPrune updatedAt allTabs c =
     (let tt = cleanUpTabTimes allTabs (memoryTabTimes c);
          (tt', tu, aliveUrls) = recomputeLoop updatedAt allTabs (tt, memoryTabTimesByUrl c, [])
      in c\<lparr>memoryTabTimes := tt', memoryTabTimesByUrl := cleanUpTabTimesByUrl aliveUrls tu\<rparr>)"

text \<open>
  What the platform answers during one run of \<^verbatim>\<open>checkToClose\<close>: the clock readings in
  the order the code takes them, and the result of each awaited call.
\<close>

record 'p env =
  now_startTime :: int
  now_cutOff :: int
  now_updatedAt :: int
  now_closing :: "nat \<Rightarrow> int"
  now_end :: int
  getStorageSyncPersist_paused :: "error + bool"
  tabs_query_all :: "error + tab list"
  tabs_query_active :: "error + tab list"
  windows_getAll :: "error + window list"
  getStorageLocalPersist :: "error + 'p"
  storage_local_set_persist :: "error + unit"
  hostname :: "string \<Rightarrow> string option"

definition selectCandidates ::
  "settings \<Rightarrow> 'p env \<Rightarrow> int option set \<Rightarrow> int \<Rightarrow> tab list \<Rightarrow> tabTimes
     \<Rightarrow> error \<times> tabTimes + tab list \<times> tabTimes"
where
  "selectCandidates cfg env toCut updatedAt allTabs tt =
     (if minTabsStrategy cfg = ''allWindows''
      then Inr (findTabsToCloseCandidates cfg toCut updatedAt allTabs False tt)
      else (case windows_getAll env of
              Inl e \<Rightarrow> Inl (e, tt)
            | Inr windows \<Rightarrow>
                Inr (perWindowCandidates cfg toCut updatedAt (tabsByWindowId allTabs) windows tt)))"

definition criticalSection ::
  "settings \<Rightarrow> 'p env \<Rightarrow> int \<Rightarrow> cache \<Rightarrow> (error + tab list) \<times> cache \<times> 'p event list"
where
  "criticalSection cfg env cutOff c =
     (case tabs_query_all env of
        Inl e \<Rightarrow> (Inl e, c, [])
      | Inr allTabs \<Rightarrow>
          (let tabTimes = getTabTimes c;
               toCut = set (getTabsOlderThan tabTimes cutOff);
               updatedAt = now_updatedAt env
           in case tabs_query_active env of
                Inl e \<Rightarrow> (Inl e, c, [])
              | Inr activeTabs \<Rightarrow>
                  (let tt1 = refreshActiveTabs updatedAt activeTabs tabTimes;
                       tt2 = refreshAudibleTabs cfg updatedAt allTabs tt1
                   in case selectCandidates cfg env toCut updatedAt allTabs tt2 of
                        Inl (e, tt3) \<Rightarrow> (Inl e, c\<lparr>memoryTabTimes := tt3\<rparr>, [])
                      | Inr (candidateTabs, tt3) \<Rightarrow>
                          (let c' = recomputeAndPrune updatedAt allTabs (c\<lparr>memoryTabTimes := tt3\<rparr>)
                           in (Inr candidateTabs, c', forceSyncTabTimes c')))))"


section \<open>The wrangler (tabUtil.ts)\<close>

text \<open>
  The persisted \<^verbatim>\<open>persist:localStorage\<close> object. \<^verbatim>\<open>wrangleTabs\<close> touches two of its
  fields; the others are the extension part of the record.
\<close>

record storageLocalPersist =
  savedTabs :: "tab list"
  totalTabsWrangled :: int

text \<open>\<^verbatim>\<open>Array.prototype.findIndex\<close>: the first index whose element satisfies \<open>P\<close>, or \<open>-1\<close>.\<close>

fun findIndexFrom :: "int \<Rightarrow> ('a \<Rightarrow> bool) \<Rightarrow> 'a list \<Rightarrow> int" where
  "findIndexFrom i P [] = -1"
| "findIndexFrom i P (x # xs) = (if P x then i else findIndexFrom (i + 1) P xs)"

definition findPositionByURL :: "tab list \<Rightarrow> string option \<Rightarrow> int" where
  "findPositionByURL saved u =
     (let url' = (case u of None \<Rightarrow> [] | Some v \<Rightarrow> v)
      in findIndexFrom 0 (\<lambda>item. url item = Some url') saved)"

text \<open>
  \<^verbatim>\<open>new URL(u).hostname\<close> is the platform's URL parser, a parameter \<open>hn\<close> here; it
  throws a TypeError (\<open>None\<close>) on a string that is not a URL.
\<close>

fun findIndexHostTitle ::
  "(string \<Rightarrow> string option) \<Rightarrow> string \<Rightarrow> string \<Rightarrow> int \<Rightarrow> tab list \<Rightarrow> error + int"
where
  "findIndexHostTitle hn hostB title' i [] = Inr (-1)"
| "findIndexHostTitle hn hostB title' i (t # ts) =
     (case hn (case url t of None \<Rightarrow> [] | Some v \<Rightarrow> v) of
        None \<Rightarrow> Inl TypeError
      | Some hostA \<Rightarrow>
          if hostA = hostB \<and> title t = Some title' then Inr i
          else findIndexHostTitle hn hostB title' (i + 1) ts)"

definition findPositionByHostnameAndTitle ::
  "(string \<Rightarrow> string option) \<Rightarrow> tab list \<Rightarrow> string option \<Rightarrow> string option \<Rightarrow> error + int"
where
  "findPositionByHostnameAndTitle hn saved u ti =
     (let url' = (case u of None \<Rightarrow> [] | Some v \<Rightarrow> v);
          title' = (case ti of None \<Rightarrow> [] | Some v \<Rightarrow> v)
      in case hn url' of
           None \<Rightarrow> Inl TypeError
         | Some hostB \<Rightarrow> findIndexHostTitle hn hostB title' 0 saved)"

definition getURLPositionFilterByWrangleOption ::
  "(string \<Rightarrow> string option) \<Rightarrow> tab list \<Rightarrow> string \<Rightarrow> tab \<Rightarrow> error + int"
where
  "getURLPositionFilterByWrangleOption hn saved option' =
     (if option' = ''hostnameAndTitleMatch''
      then (\<lambda>t. findPositionByHostnameAndTitle hn saved (url t) (title t))
      else if option' = ''exactURLMatch''
      then (\<lambda>t. Inr (findPositionByURL saved (url t)))
      else (\<lambda>t. Inr (-1)))"

text \<open>\<^verbatim>\<open>xs.splice(pos, 1)\<close> for an index \<open>pos\<close> of \<open>xs\<close>: what is left of \<open>xs\<close>.\<close>

definition spliceOneAt :: "nat \<Rightarrow> 'a list \<Rightarrow> 'a list" where
  "spliceOneAt pos xs = take pos xs @ drop (Suc pos) xs"

text \<open>
  \<^verbatim>\<open>xs.splice(start)\<close>: the removed tail and what is left of \<open>xs\<close>; a negative \<open>start\<close>
  counts from the end.
\<close>

definition spliceFrom :: "'a list \<Rightarrow> int \<Rightarrow> 'a list \<times> 'a list" where
  "spliceFrom xs start =
     (let n = int (length xs);
          k = nat (if start < 0 then max (n + start) 0 else min start n)
      in (drop k xs, take k xs))"

text \<open>
  The loop of lines 60 to 77. The closure over \<^verbatim>\<open>storageLocalPersist.savedTabs\<close> sees the
  array as the iterations before left it, so the position is looked up in the current list.
  \<open>dates i\<close> is the reading of \<^verbatim>\<open>Date.now()\<close> in iteration \<open>i\<close>.
\<close>

fun wrangleLoop ::
  "(string \<Rightarrow> string option) \<Rightarrow> string \<Rightarrow> (nat \<Rightarrow> int) \<Rightarrow> nat \<Rightarrow> tab list
     \<Rightarrow> 'a storageLocalPersist_scheme \<times> int list
     \<Rightarrow> error + 'a storageLocalPersist_scheme \<times> int list"
where
  "wrangleLoop hn option' dates i [] st = Inr st"
| "wrangleLoop hn option' dates i (t # ts) (s, tabIdsToRemove) =
     (case getURLPositionFilterByWrangleOption hn (savedTabs s) option' t of
        Inl e \<Rightarrow> Inl e
      | Inr existingTabPosition \<Rightarrow>
          (let closingDate = dates i;
               saved1 = (if existingTabPosition > -1
                         then spliceOneAt (nat existingTabPosition) (savedTabs s)
                         else savedTabs s);
               t' = t\<lparr>closedAt := Some closingDate\<rparr>;
               s' = s\<lparr>savedTabs := t' # saved1,
                      totalTabsWrangled := totalTabsWrangled s + 1\<rparr>;
               ids' = (case tab_id t of
                         Some tabId \<Rightarrow> tabIdsToRemove @ [tabId]
                       | None \<Rightarrow> tabIdsToRemove)
           in wrangleLoop hn option' dates (Suc i) ts (s', ids')))"

text \<open>Lines 85 to 90.\<close>

definition trimSavedTabs ::
  "int \<Rightarrow> 'a storageLocalPersist_scheme \<Rightarrow> 'a storageLocalPersist_scheme \<times> 'p event list"
where
  "trimSavedTabs maxTabs' s =
     (if int (length (savedTabs s)) - maxTabs' > 0
      then (let (tabsToTrim, left) = spliceFrom (savedTabs s) maxTabs'
            in (s\<lparr>savedTabs := splice0 left maxTabs'\<rparr>,
                [ConsoleLogTrimmed (map url tabsToTrim)]))
      else (s, []))"

definition wrangleTabs ::
  "settings \<Rightarrow> (string \<Rightarrow> string option) \<Rightarrow> (nat \<Rightarrow> int) \<Rightarrow> 'a storageLocalPersist_scheme
     \<Rightarrow> tab list \<Rightarrow> error + 'a storageLocalPersist_scheme \<times> 'p event list"
where
  "wrangleTabs cfg hn dates s tabs =
     (if length tabs = 0 then Inr (s, [])
      else (case wrangleLoop hn (wrangleOption cfg) dates 0 tabs (s, []) of
              Inl e \<Rightarrow> Inl e
            | Inr (s1, tabIdsToRemove) \<Rightarrow>
                (let removal = (if length tabIdsToRemove > 0
                                then [TabsRemove tabIdsToRemove] else []);
                     (s2, logged) = trimSavedTabs (maxTabs cfg) s1
                 in Inr (s2, removal @ logged))))"

section \<open>The scheduler and the entry points (background script)\<close>

record 'p background =
  tabTimesCache :: cache
  startupComplete :: bool
  events :: "'p event list"

definition CHECK_TO_CLOSE_ALARM :: string where
  "CHECK_TO_CLOSE_ALARM = ''checkToClose''"

definition scheduleCheckToClose :: "settings \<Rightarrow> 'p background \<Rightarrow> 'p background" where
  "scheduleCheckToClose cfg st =
     (let stayOpenTime = stayOpen cfg;
          intervalMs = max 30000 (min 10800000 (rat_of_int stayOpenTime / 20));
          intervalMinutes = intervalMs / 60000
      in st\<lparr>events := events st @ [AlarmsCreate CHECK_TO_CLOSE_ALARM intervalMinutes]\<rparr>)"

text \<open>The \<^verbatim>\<open>try\<close> block of \<^verbatim>\<open>checkToClose\<close>, lines 577 to 723.\<close>

definition checkToCloseTry ::
  "settings \<Rightarrow> ('a storageLocalPersist_scheme) env \<Rightarrow> ('a storageLocalPersist_scheme) background
     \<Rightarrow> (error + unit) \<times> ('a storageLocalPersist_scheme) background"
where
  "checkToCloseTry cfg env st =
     (case getStorageSyncPersist_paused env of
        Inl e \<Rightarrow> (Inl e, st)
      | Inr paused \<Rightarrow>
          if paused then (Inr (), st)
          else (let cutOff = now_cutOff env - stayOpen cfg;
                    (r, c', evs) = criticalSection cfg env cutOff (tabTimesCache st);
                    st1 = st\<lparr>tabTimesCache := c', events := events st @ evs\<rparr>
                in case r of
                     Inl e \<Rightarrow> (Inl e, st1)
                   | Inr tabsToClose \<Rightarrow>
                       if length tabsToClose > 0
                       then (case getStorageLocalPersist env of
                               Inl e \<Rightarrow> (Inl e, st1)
                             | Inr p \<Rightarrow>
                                 (case wrangleTabs cfg (hostname env) (now_closing env) p tabsToClose of
                                    Inl e \<Rightarrow> (Inl e, st1)
                                  | Inr (p', evs2) \<Rightarrow>
                                      (let st2 = st1\<lparr>events := events st1 @ evs2
                                                        @ [StorageLocalSetPersist p']\<rparr>
                                       in case storage_local_set_persist env of
                                            Inl e \<Rightarrow> (Inl e, st2)
                                          | Inr u \<Rightarrow> (Inr (), st2))))
                       else (Inr (), st1)))"

text \<open>The whole of \<^verbatim>\<open>checkToClose\<close>: the \<^verbatim>\<open>try\<close> block, \<^verbatim>\<open>catch\<close> and \<^verbatim>\<open>finally\<close>.\<close>

definition checkToClose ::
  "settings \<Rightarrow> ('a storageLocalPersist_scheme) env \<Rightarrow> ('a storageLocalPersist_scheme) background
     \<Rightarrow> ('a storageLocalPersist_scheme) background"
where
  "checkToClose cfg env st =
     (let startTime = now_startTime env;
          (r, st1) = checkToCloseTry cfg env st;
          st2 = (case r of
                   Inl e \<Rightarrow> st1\<lparr>events := events st1 @ [ConsoleError e]\<rparr>
                 | Inr u \<Rightarrow> st1);
          elapsedTime = now_end env - startTime;
          st3 = (if elapsedTime > 5000 then st2\<lparr>events := events st2 @ [ConsoleWarn]\<rparr>
                 else st2)
      in scheduleCheckToClose cfg st3)"

section \<open>Startup migration (startup, lines 734 to 791)\<close>

record startup_env =
  settings_init :: "error + unit"
  startup_paused :: "error + bool"
  removeAllSavedTabs :: "error + unit"
  storage_local_get :: "error + tabTimes \<times> tabTimesByUrl"
  startup_tabs_query :: "error + tab list"
  startup_now :: int

text \<open>The loop of lines 762 to 776; the state is \<^verbatim>\<open>(nextTabTimes, migrated)\<close>.\<close>

fun migrateLoop ::
  "tabTimes \<Rightarrow> tabTimesByUrl \<Rightarrow> int \<Rightarrow> tab list \<Rightarrow> tabTimes \<times> nat \<Rightarrow> tabTimes \<times> nat"
where
  "migrateLoop tabTimes byUrl now [] st = st"
| "migrateLoop tabTimes byUrl now (t # ts) (nextTabTimes, migrated) =
     migrateLoop tabTimes byUrl now ts
       (case tab_id t of
          None \<Rightarrow> (nextTabTimes, migrated)
        | Some i \<Rightarrow>
            (case map_of tabTimes (IdKey i) of
               Some v \<Rightarrow> (AList.update (IdKey i) v nextTabTimes, migrated)
             | None \<Rightarrow>
                 (case (case url t of
                          None \<Rightarrow> None
                        | Some u \<Rightarrow> if u = [] then None else map_of byUrl u) of
                    Some v \<Rightarrow> (AList.update (IdKey i) v nextTabTimes, Suc migrated)
                  | None \<Rightarrow> (AList.update (IdKey i) now nextTabTimes, migrated))))"

text \<open>The critical section of \<^verbatim>\<open>startup\<close>, lines 752 to 784.\<close>

definition startupMigration :: "startup_env \<Rightarrow> cache \<Rightarrow> error + cache \<times> 'p event list" where
  "startupMigration env c =
     (case storage_local_get env of
        Inl e \<Rightarrow> Inl e
      | Inr (tabTimes, tabTimesByUrl) \<Rightarrow>
          (case startup_tabs_query env of
             Inl e \<Rightarrow> Inl e
           | Inr allTabs \<Rightarrow>
               (let now = startup_now env;
                    (nextTabTimes, migrated) = migrateLoop tabTimes tabTimesByUrl now allTabs ([], 0);
                    c' = initTabTimes nextTabTimes (Some tabTimesByUrl) c
                in Inr (c', forceSyncTabTimes c'))))"

definition startup ::
  "settings \<Rightarrow> startup_env \<Rightarrow> 'p background \<Rightarrow> (error + unit) \<times> 'p background"
where
  "startup cfg env st =
     (case settings_init env of
        Inl e \<Rightarrow> (Inl e, st)
      | Inr u \<Rightarrow>
          (case startup_paused env of
             Inl e \<Rightarrow> (Inl e, st)
           | Inr paused \<Rightarrow>
               (let st1 = st\<lparr>events := events st @
                              [SetIcon (if paused then ''img/icon-paused.png'' else ''img/icon.png''),
                               UpdateClosedCount]\<rparr>
                in case (if purgeClosedTabs cfg then removeAllSavedTabs env else Inr ()) of
                     Inl e \<Rightarrow> (Inl e, st1)
                   | Inr u' \<Rightarrow>
                       (case startupMigration env (tabTimesCache st1) of
                          Inl e \<Rightarrow> (Inl e, st1)
                        | Inr (c', evs) \<Rightarrow>
                            (let st2 = st1\<lparr>tabTimesCache := c', events := events st1 @ evs\<rparr>;
                                 st3 = st2\<lparr>startupComplete := True,
                                          events := events st2 @ [SetStartupComplete]\<rparr>
                             in (Inr (), scheduleCheckToClose cfg st3))))))"

section \<open>The timeout-based variant of the recompute step (lines 257 to 272)\<close>

text \<open>
  The first copy of the background script builds fresh maps \<^verbatim>\<open>nextTabTimes\<close> and
  \<^verbatim>\<open>nextTabTimesByUrl\<close> and keeps the oldest timestamp of a URL that several tabs share.
\<close>

fun nextTabTimesLoop ::
  "int \<Rightarrow> tabTimes \<Rightarrow> tab list \<Rightarrow> tabTimes \<times> tabTimesByUrl \<Rightarrow> tabTimes \<times> tabTimesByUrl"
where
  "nextTabTimesLoop updatedAt tabTimes [] st = st"
| "nextTabTimesLoop updatedAt tabTimes (t # ts) (nextTabTimes, nextTabTimesByUrl) =
     nextTabTimesLoop updatedAt tabTimes ts
       (case tab_id t of
          None \<Rightarrow> (nextTabTimes, nextTabTimesByUrl)
        | Some i \<Rightarrow>
            (let time = timeOrDefault tabTimes (IdKey i) updatedAt;
                 next' = AList.update (IdKey i) time nextTabTimes
             in case url t of
                  None \<Rightarrow> (next', nextTabTimesByUrl)
                | Some u \<Rightarrow>
                    if u = [] then (next', nextTabTimesByUrl)
                    else (case map_of nextTabTimesByUrl u of
                            None \<Rightarrow> (next', AList.update u time nextTabTimesByUrl)
                          | Some existing \<Rightarrow>
                              if time < existing
                              then (next', AList.update u time nextTabTimesByUrl)
                              else (next', nextTabTimesByUrl))))"

text \<open>
  The entry this loop leaves for a URL: the entry before the loop, lowered to the smallest
  of the times of the tabs that carry the URL.
\<close>

fun keepOldest :: "int option \<Rightarrow> int list \<Rightarrow> int option" where
  "keepOldest acc [] = acc"
| "keepOldest None (x # xs) = keepOldest (Some x) xs"
| "keepOldest (Some e) (x # xs) = keepOldest (Some (min x e)) xs"

section \<open>The specification's reading of candidate selection\<close>

text \<open>
  This definition follows the words of the specification, not the code: the tabs past the
  cutoff are sorted ascending by cached timestamp (the sort is stable, so ties keep the
  enumeration order) and the first \<open>group.size - minTabs\<close> of them are kept.
\<close>

definition cachedTime :: "tabTimes \<Rightarrow> tab \<Rightarrow> int" where
  "cachedTime tt t =
     (case tab_id t of
        None \<Rightarrow> 0
      | Some i \<Rightarrow> (case map_of tt (IdKey i) of None \<Rightarrow> 0 | Some v \<Rightarrow> v))"

definition oldestFirstCandidates ::
  "settings \<Rightarrow> int option set \<Rightarrow> tabTimes \<Rightarrow> tab list \<Rightarrow> tab list"
where
  "oldestFirstCandidates cfg toCut tt tabs0 =
     (let tabs = filter (createShouldTabBeClosedFilter cfg) tabs0;
          pastCutoff = filter (inToCut toCut) tabs
      in take (nat (int (length tabs) - minTabs cfg)) (sort_key (cachedTime tt) pastCutoff))"

section \<open>The candidate list of a group in closed form\<close>

text \<open>
  The list that \<^verbatim>\<open>findTabsToCloseCandidates\<close> returns depends on the group, the settings
  and \<open>toCut\<close> only, not on \<^verbatim>\<open>tabTimes\<close>; this is that list.
\<close>

definition candidatesOf :: "settings \<Rightarrow> int option set \<Rightarrow> tab list \<Rightarrow> tab list" where
  "candidatesOf cfg toCut tabs0 =
     (let tabs = filter (createShouldTabBeClosedFilter cfg) tabs0
      in if int (length tabs) - minTabs cfg \<le> 0 then []
         else filter (\<lambda>t. tab_id t \<noteq> None)
                (take (nat (int (length tabs) - minTabs cfg)) (filter (inToCut toCut) tabs)))"

text \<open>The live tabs once the candidates of a cycle are closed: the tabs with none of their ids.\<close>

definition survivors :: "tab list \<Rightarrow> tab list \<Rightarrow> tab list" where
  "survivors cands allTabs =
     filter (\<lambda>t. case tab_id t of
                   None \<Rightarrow> True
                 | Some i \<Rightarrow> Some i \<notin> set (map tab_id cands)) allTabs"

section \<open>The order of the archive\<close>

text \<open>
  \<open>closedNoLater b a\<close>: both entries carry a \<^verbatim>\<open>closedAt\<close> stamp and \<open>b\<close> was not closed
  after \<open>a\<close>. An archive is newest-first when every entry was closed no later than the
  entries before it.
\<close>

definition closedNoLater :: "tab \<Rightarrow> tab \<Rightarrow> bool" where
  "closedNoLater b a =
     (case (closedAt b, closedAt a) of (Some y, Some x) \<Rightarrow> y \<le> x | _ \<Rightarrow> False)"

definition newestFirst :: "tab list \<Rightarrow> bool" where
  "newestFirst saved = sorted_wrt (\<lambda>a b. closedNoLater b a) saved"

text \<open>\<open>stampedBy d saved\<close>: every entry of the archive was closed, and no later than \<open>d\<close>.\<close>

definition stampedBy :: "int \<Rightarrow> tab list \<Rightarrow> bool" where
  "stampedBy d saved = (\<forall>t \<in> set saved. \<exists>x. closedAt t = Some x \<and> x \<le> d)"

section \<open>Concrete inputs\<close>

text \<open>An unpinned, silent, ungrouped tab with the given id, URL and window.\<close>

definition plainTab :: "int \<Rightarrow> string \<Rightarrow> int \<Rightarrow> tab" where
  "plainTab i u w =
     \<lparr>tab_id = Some i, url = Some u, title = Some u, pinned = False, audible = False,
      groupId = None, windowId = Some w, closedAt = None\<rparr>"

text \<open>Settings with the given \<open>minTabs\<close> and \<open>lockedIds\<close>, a window of 100 ms, per-window floor.\<close>

definition exampleSettings :: "int \<Rightarrow> int list \<Rightarrow> settings" where
  "exampleSettings m locked =
     \<lparr>stayOpen = 100, minTabs = m, minTabsStrategy = ''givenWindow'', lockedIds = locked,
      whitelist = [], filterAudio = False, filterGroupedTabs = False, maxTabs = 2,
      wrangleOption = ''withDupes'', purgeClosedTabs = False\<rparr>"

text \<open>A run of \<^verbatim>\<open>checkToClose\<close> in which every call succeeds and the clock stands at \<open>now\<close>.\<close>

definition exampleEnv :: "int \<Rightarrow> tab list \<Rightarrow> tab list \<Rightarrow> window list \<Rightarrow> storageLocalPersist env" where
  "exampleEnv now allTabs activeTabs windows =
     \<lparr>now_startTime = now, now_cutOff = now, now_updatedAt = now, now_closing = (\<lambda>i. now),
      now_end = now, getStorageSyncPersist_paused = Inr False, tabs_query_all = Inr allTabs,
      tabs_query_active = Inr activeTabs, windows_getAll = Inr windows,
      getStorageLocalPersist = Inr \<lparr>savedTabs = [], totalTabsWrangled = 0\<rparr>,
      storage_local_set_persist = Inr (), hostname = (\<lambda>u. Some u)\<rparr>"

definition exampleCache :: "tabTimes \<Rightarrow> cache" where
  "exampleCache tt = \<lparr>memoryTabTimes = tt, memoryTabTimesByUrl = [], isInitialized = True\<rparr>"

text \<open>An archive entry: a plain tab of window 5 closed at \<open>d\<close>.\<close>

definition closedTab :: "int \<Rightarrow> string \<Rightarrow> int \<Rightarrow> tab" where
  "closedTab i u d = (plainTab i u 5)\<lparr>closedAt := Some d\<rparr>"

text \<open>
  A start of the extension after a browser restart: storage remembers tab 1 by id and the
  URL \<open>b\<close>; tabs 1, 2 and 3 are open; the clock stands at 1000.
\<close>

definition exampleStartupEnv :: startup_env where
  "exampleStartupEnv =
     \<lparr>settings_init = Inr (), startup_paused = Inr False, removeAllSavedTabs = Inr (),
      storage_local_get = Inr ([(IdKey 1, 10)], [(''b'', 20)]),
      startup_tabs_query = Inr [plainTab 1 ''a'' 5, plainTab 2 ''b'' 5, plainTab 3 ''c'' 5],
      startup_now = 1000\<rparr>"

definition freshBackground :: "'p background" where
  "freshBackground =
     \<lparr>tabTimesCache = \<lparr>memoryTabTimes = [], memoryTabTimesByUrl = [], isInitialized = False\<rparr>,
      startupComplete = False, events = []\<rparr>"

section \<open>Helper lemmas\<close>

lemma getTabsOlderThan_entries:
  "set (getTabsOlderThan tt c) = parseInt ` {k. \<exists>v. (k, v) \<in> set tt \<and> (c = 0 \<or> v < c)}"
  by (induction tt c rule: getTabsOlderThan.induct) auto

lemma map_of_resetLoop:
  "map_of (resetLoop r u ts tt) k =
     (if r \<and> k \<in> IdKey ` {i. \<exists>t \<in> set ts. tab_id t = Some i} then Some u else map_of tt k)"
  by (induction ts arbitrary: tt) (auto simp: setTabTimeSilent_def update_conv' split: option.splits)

lemma fst_candidatesLoop:
  "fst (candidatesLoop locked u ts tt) = filter (\<lambda>t. \<exists>i. tab_id t = Some i \<and> i \<notin> locked) ts"
proof (induction ts arbitrary: tt)
  case Nil
  show ?case by simp
next
  case (Cons a ts)
  show ?case
  proof (cases "tab_id a")
    case None
    then show ?thesis using Cons.IH by simp
  next
    case (Some i)
    show ?thesis
    proof (cases "i \<in> locked")
      case True
      then show ?thesis using Some Cons.IH by simp
    next
      case False
      have "fst (candidatesLoop locked u (a # ts) tt) = a # fst (candidatesLoop locked u ts tt)"
        using Some False by (simp add: case_prod_beta)
      then show ?thesis using Some False Cons.IH by simp
    qed
  qed
qed

lemma should_not_locked:
  "createShouldTabBeClosedFilter cfg t \<Longrightarrow> tab_id t = Some i \<Longrightarrow> i \<notin> set (lockedIds cfg)"
  by (auto simp: createShouldTabBeClosedFilter_def isTabLocked_def Let_def)


lemmas example_defs = plainTab_def exampleSettings_def
lemmas filter_defs = createShouldTabBeClosedFilter_def isTabLocked_def inToCut_def
lemmas find_defs = findTabsToCloseCandidates_def splice0_def setTabTimeSilent_def

lemma parseInt_eq_Some [simp]: "(parseInt k = Some i) = (k = IdKey i)"
  by (cases k) auto

lemma Some_eq_parseInt [simp]: "(Some i = parseInt k) = (k = IdKey i)"
  by (cases k) auto

lemma should_plainTab [simp]:
  "createShouldTabBeClosedFilter (exampleSettings m locked) (plainTab i u w) = (i \<notin> set locked)"
  by (simp add: example_defs filter_defs)

lemma tab_id_plainTab [simp]: "tab_id (plainTab i u w) = Some i"
  by (simp add: plainTab_def)

lemma minTabs_exampleSettings [simp]: "minTabs (exampleSettings m locked) = m"
  by (simp add: exampleSettings_def)

lemma lockedIds_exampleSettings [simp]: "lockedIds (exampleSettings m locked) = locked"
  by (simp add: exampleSettings_def)

lemma plainTab_eq [simp]: "(plainTab i u w = plainTab j v x) = (i = j \<and> u = v \<and> w = x)"
  by (auto simp: plainTab_def)

lemma exampleEnv_simps [simp]:
  "tabs_query_all (exampleEnv now allTabs activeTabs windows) = Inr allTabs"
  "tabs_query_active (exampleEnv now allTabs activeTabs windows) = Inr activeTabs"
  "windows_getAll (exampleEnv now allTabs activeTabs windows) = Inr windows"
  "now_updatedAt (exampleEnv now allTabs activeTabs windows) = now"
  "now_cutOff (exampleEnv now allTabs activeTabs windows) = now"
  "now_startTime (exampleEnv now allTabs activeTabs windows) = now"
  "now_end (exampleEnv now allTabs activeTabs windows) = now"
  "getStorageSyncPersist_paused (exampleEnv now allTabs activeTabs windows) = Inr False"
  by (simp_all add: exampleEnv_def)

lemma exampleSettings_simps [simp]:
  "minTabsStrategy (exampleSettings m locked) = ''givenWindow''"
  "filterAudio (exampleSettings m locked) = False"
  "stayOpen (exampleSettings m locked) = 100"
  "maxTabs (exampleSettings m locked) = 2"
  "wrangleOption (exampleSettings m locked) = ''withDupes''"
  by (simp_all add: exampleSettings_def)

lemma plainTab_simps [simp]:
  "url (plainTab i u w) = Some u"
  "windowId (plainTab i u w) = Some w"
  "audible (plainTab i u w) = False"
  by (simp_all add: plainTab_def)

lemma exampleCache_simps [simp]:
  "memoryTabTimes (exampleCache tt) = tt"
  "memoryTabTimesByUrl (exampleCache tt) = []"
  "isInitialized (exampleCache tt) = True"
  by (simp_all add: exampleCache_def)

lemmas cycle_defs = criticalSection_def selectCandidates_def getTabTimes_def
  refreshActiveTabs_def refreshAudibleTabs_def tabsByWindowId_def tabsOfWindow_def
  recomputeAndPrune_def cleanUpTabTimes_def timeOrDefault_def setTabTimeByUrlSilent_def
  cleanUpTabTimesByUrl_def forceSyncTabTimes_def

section \<open>The floor of a group\<close>

text \<open>
  Claim C1. When the filtered group has no more than \<open>minTabs\<close> tabs, the function returns
  no candidates; and when \<open>resetIfNoCandidates\<close> holds, every tab of the filtered group that
  has an id has its cached timestamp set to \<open>updatedAt\<close>. The clock is read at entry
  (\<open>startTime\<close>) before it is read for \<open>updatedAt\<close>, so with a clock that does not run
  backwards the new timestamp is not before the start of the cycle.
\<close>

theorem floor_protects_group:
  assumes "int (length (filter (createShouldTabBeClosedFilter cfg) tabs)) - minTabs cfg \<le> 0"
      and "startTime \<le> updatedAt"
  shows "fst (findTabsToCloseCandidates cfg toCut updatedAt tabs r tt) = [] \<and>
         (r \<longrightarrow> (\<forall>t \<in> set (filter (createShouldTabBeClosedFilter cfg) tabs). \<forall>i.
                  tab_id t = Some i \<longrightarrow>
                  map_of (snd (findTabsToCloseCandidates cfg toCut updatedAt tabs r tt)) (IdKey i)
                    = Some updatedAt \<and> startTime \<le> updatedAt))"
proof -
  let ?F = "filter (createShouldTabBeClosedFilter cfg) tabs"
  have eq: "findTabsToCloseCandidates cfg toCut updatedAt tabs r tt = ([], resetLoop r updatedAt ?F tt)"
    using assms(1) by (simp add: findTabsToCloseCandidates_def Let_def)
  have "map_of (resetLoop r updatedAt ?F tt) (IdKey i) = Some updatedAt"
    if "r" "t \<in> set ?F" "tab_id t = Some i" for t i
    using that by (subst map_of_resetLoop) auto
  then show ?thesis using eq assms(2) by auto
qed

theorem floor_protects_group_witness:
  "fst (findTabsToCloseCandidates (exampleSettings 2 []) {Some 1, Some 2} 1000
          [plainTab 1 ''a'' 5, plainTab 2 ''b'' 5] True [(IdKey 1, 10), (IdKey 2, 20)]) = [] \<and>
   map_of (snd (findTabsToCloseCandidates (exampleSettings 2 []) {Some 1, Some 2} 1000
          [plainTab 1 ''a'' 5, plainTab 2 ''b'' 5] True [(IdKey 1, 10), (IdKey 2, 20)])) (IdKey 2)
     = Some 1000"
proof -
  have len: "int (length (filter (createShouldTabBeClosedFilter (exampleSettings 2 []))
                [plainTab 1 ''a'' 5, plainTab 2 ''b'' 5])) - minTabs (exampleSettings 2 []) \<le> 0"
    by simp
  have mem: "plainTab 2 ''b'' 5 \<in> set (filter (createShouldTabBeClosedFilter (exampleSettings 2 []))
                [plainTab 1 ''a'' 5, plainTab 2 ''b'' 5])"
    by simp
  have clock: "(990::int) \<le> 1000" by simp
  from floor_protects_group [OF len clock, of "{Some 1, Some 2}" True "[(IdKey 1, 10), (IdKey 2, 20)]"] mem
  show ?thesis by (meson tab_id_plainTab)
qed

section \<open>Which tabs of a group are chosen\<close>

text \<open>
  Claim C2, as amended. When the filtered group has more than \<open>minTabs\<close> tabs, the candidates
  are the tabs with an id among the first \<open>group.size - minTabs\<close> tabs, in enumeration
  order, of the filtered tabs that have no id or whose id is in \<open>toCut\<close>. Nothing is sorted
  by timestamp.
\<close>

theorem candidates_first_in_enumeration_order:
  assumes "int (length (filter (createShouldTabBeClosedFilter cfg) tabs)) - minTabs cfg > 0"
  shows "fst (findTabsToCloseCandidates cfg toCut updatedAt tabs r tt) =
           filter (\<lambda>t. tab_id t \<noteq> None)
             (take (nat (int (length (filter (createShouldTabBeClosedFilter cfg) tabs)) - minTabs cfg))
                (filter (inToCut toCut) (filter (createShouldTabBeClosedFilter cfg) tabs)))"
proof -
  let ?F = "filter (createShouldTabBeClosedFilter cfg) tabs"
  let ?P = "take (nat (int (length ?F) - minTabs cfg)) (filter (inToCut toCut) ?F)"
  have P: "createShouldTabBeClosedFilter cfg t" if "t \<in> set ?P" for t
    using in_set_takeD [OF that] by simp
  have "fst (findTabsToCloseCandidates cfg toCut updatedAt tabs r tt) =
          filter (\<lambda>t. \<exists>i. tab_id t = Some i \<and> i \<notin> set (lockedIds cfg)) ?P"
  proof (cases "?P = []")
    case True
    then show ?thesis using assms
      by (simp add: findTabsToCloseCandidates_def Let_def splice0_def)
  next
    case False
    then show ?thesis using assms
      by (simp add: findTabsToCloseCandidates_def Let_def splice0_def fst_candidatesLoop)
  qed
  also have "\<dots> = filter (\<lambda>t. tab_id t \<noteq> None) ?P"
  proof (rule filter_cong [OF refl])
    fix t assume "t \<in> set ?P"
    then have "createShouldTabBeClosedFilter cfg t" by (rule P)
    then show "(\<exists>i. tab_id t = Some i \<and> i \<notin> set (lockedIds cfg)) = (tab_id t \<noteq> None)"
      using should_not_locked by (cases "tab_id t") auto
  qed
  finally show ?thesis .
qed

theorem candidates_first_in_enumeration_order_witness:
  "fst (findTabsToCloseCandidates (exampleSettings 2 []) {Some 1, Some 2, Some 3} 1000
          [plainTab 1 ''a'' 5, plainTab 2 ''b'' 5, plainTab 3 ''c'' 5] True
          [(IdKey 1, 20), (IdKey 2, 10), (IdKey 3, 15)]) = [plainTab 1 ''a'' 5]"
proof -
  have len: "int (length (filter (createShouldTabBeClosedFilter (exampleSettings 2 []))
                [plainTab 1 ''a'' 5, plainTab 2 ''b'' 5, plainTab 3 ''c'' 5]))
              - minTabs (exampleSettings 2 []) > 0"
    by simp
  from candidates_first_in_enumeration_order [OF len, of "{Some 1, Some 2, Some 3}" 1000 True
         "[(IdKey 1, 20), (IdKey 2, 10), (IdKey 3, 15)]"]
  show ?thesis by (simp add: inToCut_def)
qed

text \<open>
  Three tabs of one window, all past the cutoff, \<open>minTabs = 2\<close>: the code evicts the first
  tab (timestamp 20), the specification's reading evicts the oldest (timestamp 10).
\<close>

theorem candidates_not_oldest_first:
  "fst (findTabsToCloseCandidates (exampleSettings 2 [])
          (set (getTabsOlderThan [(IdKey 1, 20), (IdKey 2, 10), (IdKey 3, 15)] 900)) 1000
          [plainTab 1 ''a'' 5, plainTab 2 ''b'' 5, plainTab 3 ''c'' 5] True
          [(IdKey 1, 20), (IdKey 2, 10), (IdKey 3, 15)]) = [plainTab 1 ''a'' 5] \<and>
   oldestFirstCandidates (exampleSettings 2 [])
          (set (getTabsOlderThan [(IdKey 1, 20), (IdKey 2, 10), (IdKey 3, 15)] 900))
          [(IdKey 1, 20), (IdKey 2, 10), (IdKey 3, 15)]
          [plainTab 1 ''a'' 5, plainTab 2 ''b'' 5, plainTab 3 ''c'' 5] = [plainTab 2 ''b'' 5] \<and>
   plainTab 1 ''a'' 5 \<noteq> plainTab 2 ''b'' 5"
  by (simp add: find_defs inToCut_def oldestFirstCandidates_def cachedTime_def)

section \<open>The set of tabs to cut\<close>

text \<open>
  Claim C3, as amended. The keys of the \<^verbatim>\<open>tabTimes\<close> object are distinct. For a nonzero
  cutoff, a tab id is in \<open>toCut\<close> exactly when its cached timestamp is strictly less than
  the cutoff. For the cutoff 0, every cached tab id is in \<open>toCut\<close>.
\<close>

theorem toCut_membership:
  assumes "distinct (map fst tabTimes)"
  shows "(cutOff \<noteq> 0 \<longrightarrow>
            (Some i \<in> set (getTabsOlderThan tabTimes cutOff)
               \<longleftrightarrow> (\<exists>v. map_of tabTimes (IdKey i) = Some v \<and> v < cutOff))) \<and>
         (cutOff = 0 \<longrightarrow>
            (Some i \<in> set (getTabsOlderThan tabTimes cutOff)
               \<longleftrightarrow> (\<exists>v. map_of tabTimes (IdKey i) = Some v)))"
proof -
  have "Some i \<in> set (getTabsOlderThan tabTimes cutOff) \<longleftrightarrow>
          (\<exists>v. (IdKey i, v) \<in> set tabTimes \<and> (cutOff = 0 \<or> v < cutOff))"
    unfolding getTabsOlderThan_entries by (auto simp: image_iff)
  also have "\<dots> \<longleftrightarrow> (\<exists>v. map_of tabTimes (IdKey i) = Some v \<and> (cutOff = 0 \<or> v < cutOff))"
    using assms by simp
  finally show ?thesis by auto
qed

theorem toCut_membership_witness:
  "Some 1 \<in> set (getTabsOlderThan [(IdKey 1, 10), (IdKey 2, 950)] 900) \<and>
   Some 2 \<notin> set (getTabsOlderThan [(IdKey 1, 10), (IdKey 2, 950)] 900)"
proof -
  have d: "distinct (map fst [(IdKey 1, 10::int), (IdKey 2, 950)])" by simp
  from toCut_membership [OF d, of 900 1] toCut_membership [OF d, of 900 2] show ?thesis by simp
qed

text \<open>With the cutoff 0, a tab whose timestamp is 100 is cut and becomes a candidate.\<close>

theorem zero_cutOff_cuts_everything:
  "Some 7 \<in> set (getTabsOlderThan [(IdKey 7, 100)] 0) \<and>
   fst (findTabsToCloseCandidates (exampleSettings 0 [])
          (set (getTabsOlderThan [(IdKey 7, 100)] 0)) 50 [plainTab 7 ''a'' 5] True
          [(IdKey 7, 100)]) = [plainTab 7 ''a'' 5]"
  by (simp add: find_defs inToCut_def)

section \<open>Locked tabs\<close>

text \<open>
  A tab whose id is in \<open>lockedIds\<close> is removed by the should-be-closed filter, so it is
  never a candidate.
\<close>

lemma locked_never_candidate:
  assumes "t \<in> set (fst (findTabsToCloseCandidates cfg toCut updatedAt tabs r tt))"
      and "tab_id t = Some i"
  shows "i \<notin> set (lockedIds cfg)"
proof -
  have "t \<in> set (fst (candidatesLoop (set (lockedIds cfg)) updatedAt xs tt))
          \<Longrightarrow> i \<notin> set (lockedIds cfg)" for xs
    using assms(2) by (auto simp: fst_candidatesLoop)
  then show ?thesis using assms(1)
    by (auto simp: findTabsToCloseCandidates_def Let_def split: if_splits)
qed

text \<open>
  Claim C4. The claim asks that a locked tab that would otherwise have been a trimmed
  candidate has its timestamp refreshed to \<open>updatedAt\<close>. Here tab 1 is locked, both tabs
  of the window are past the cutoff 900 and \<open>minTabs\<close> is 0. The cycle returns tab 2 alone,
  and the timestamp of tab 1 is still 10 and not the \<open>updatedAt\<close> of 1000: the filter has
  removed the locked tab before the loop that would refresh it. Were tab 1 not locked, it
  would be a candidate (third conjunct).
\<close>

theorem locked_tab_is_not_refreshed:
  "fst (criticalSection (exampleSettings 0 [1])
          (exampleEnv 1000 [plainTab 1 ''a'' 5, plainTab 2 ''b'' 5] []
             [\<lparr>win_id = Some 5, focused = True\<rparr>])
          900 (exampleCache [(IdKey 1, 10), (IdKey 2, 10)])) = Inr [plainTab 2 ''b'' 5] \<and>
   map_of (memoryTabTimes (fst (snd (criticalSection (exampleSettings 0 [1])
          (exampleEnv 1000 [plainTab 1 ''a'' 5, plainTab 2 ''b'' 5] []
             [\<lparr>win_id = Some 5, focused = True\<rparr>])
          900 (exampleCache [(IdKey 1, 10), (IdKey 2, 10)]))))) (IdKey 1) = Some 10 \<and>
   fst (criticalSection (exampleSettings 0 [])
          (exampleEnv 1000 [plainTab 1 ''a'' 5, plainTab 2 ''b'' 5] []
             [\<lparr>win_id = Some 5, focused = True\<rparr>])
          900 (exampleCache [(IdKey 1, 10), (IdKey 2, 10)])) =
     Inr [plainTab 1 ''a'' 5, plainTab 2 ''b'' 5]"
  by (simp add: cycle_defs find_defs inToCut_def Let_def)

section \<open>Tabs that share a URL\<close>

text \<open>
  Claim C6. Two live tabs share the URL \<open>u\<close>, with cached timestamps 10 and 20. After the
  recompute-and-persist step of the cycle, the URL-keyed map that is kept in memory and
  written to storage holds 20 for \<open>u\<close>, the timestamp of the tab enumerated last, where the
  claim asks for the oldest, 10.
\<close>

theorem shared_url_keeps_last_timestamp:
  "snd (criticalSection (exampleSettings 0 [])
          (exampleEnv 105 [plainTab 1 ''u'' 5, plainTab 2 ''u'' 5] []
             [\<lparr>win_id = Some 5, focused = True\<rparr>])
          5 (exampleCache [(IdKey 1, 10), (IdKey 2, 20)])) =
     (\<lparr>memoryTabTimes = [(IdKey 1, 10), (IdKey 2, 20)], memoryTabTimesByUrl = [(''u'', 20)],
       isInitialized = True\<rparr>,
      [StorageLocalSetTabTimes [(IdKey 1, 10), (IdKey 2, 20)] [(''u'', 20)]])"
  by (simp add: cycle_defs find_defs inToCut_def Let_def exampleCache_def)

text \<open>
  The timeout-based variant of the same step keeps the oldest timestamp of a shared URL:
  on the same input it leaves 10, and in general the smallest time among the tabs of the URL.
\<close>

lemma nextTabTimesLoop_shared_url:
  "nextTabTimesLoop 105 [(IdKey 1, 10), (IdKey 2, 20)]
     [plainTab 1 ''u'' 5, plainTab 2 ''u'' 5] ([], []) =
     ([(IdKey 1, 10), (IdKey 2, 20)], [(''u'', 10)])"
  by (simp add: timeOrDefault_def)

lemma nextTabTimesLoop_keeps_oldest:
  assumes "u \<noteq> []"
  shows "map_of (snd (nextTabTimesLoop updatedAt tabTimes ts (n, nu))) u =
           keepOldest (map_of nu u)
             (map (\<lambda>t. timeOrDefault tabTimes (String_of_id (tab_id t)) updatedAt)
                (filter (\<lambda>t. tab_id t \<noteq> None \<and> url t = Some u) ts))"
  using assms
proof (induction ts arbitrary: n nu)
  case Nil
  show ?case by simp
next
  case (Cons t ts)
  show ?case
  proof (cases "tab_id t")
    case None
    then show ?thesis using Cons by simp
  next
    case (Some i)
    show ?thesis
    proof (cases "url t = Some u")
      case True
      then show ?thesis using Some Cons
        by (cases "map_of nu u") (auto simp: Let_def update_conv' min_def)
    next
      case False
      then show ?thesis using Some Cons
        by (auto simp: Let_def update_conv' split: option.splits)
    qed
  qed
qed

section \<open>The wrangler\<close>

lemma closedAt_closedTab [simp]: "closedAt (closedTab i u d) = Some d"
  by (simp add: closedTab_def)

lemma closedTab_eq: "(plainTab i u 5)\<lparr>closedAt := Some d\<rparr> = closedTab i u d"
  by (simp add: closedTab_def)

lemma withDupes_position [simp]:
  "getURLPositionFilterByWrangleOption hn saved ''withDupes'' t = Inr (-1)"
  by (simp add: getURLPositionFilterByWrangleOption_def)

text \<open>
  Claim C10. With an empty list of tabs \<^verbatim>\<open>wrangleTabs\<close> returns at once: the storage
  state is the one it was given, in every field, and nothing is asked of the platform,
  so no tab removal either.
\<close>

theorem wrangleTabs_empty_is_noop: "wrangleTabs cfg hn dates s [] = Inr (s, [])"
  by (simp add: wrangleTabs_def)

theorem wrangleTabs_empty_is_noop_witness:
  "wrangleTabs (exampleSettings 0 []) (\<lambda>u. Some u) (\<lambda>i. 10)
     \<lparr>savedTabs = [closedTab 1 ''a'' 5], totalTabsWrangled = 1\<rparr> [] =
   (Inr (\<lparr>savedTabs = [closedTab 1 ''a'' 5], totalTabsWrangled = 1\<rparr>, [])
      :: error + storageLocalPersist \<times> unit event list)"
  by (rule wrangleTabs_empty_is_noop)

text \<open>The archive stays newest-first through the loop that prepends the closed tabs.\<close>

lemma sorted_wrt_spliceOneAt:
  assumes "sorted_wrt R xs"
  shows "sorted_wrt R (spliceOneAt pos xs)"
proof -
  have xs: "xs = take pos xs @ drop pos xs" by simp
  have "sorted_wrt R (take pos xs @ drop pos xs)" using assms by simp
  then have cross: "\<forall>x \<in> set (take pos xs). \<forall>y \<in> set (drop pos xs). R x y"
    and l: "sorted_wrt R (take pos xs)" and r: "sorted_wrt R (drop pos xs)"
    unfolding sorted_wrt_append by auto
  have sub: "set (drop (Suc pos) xs) \<subseteq> set (drop pos xs)"
    by (metis drop_Suc set_drop_subset tl_drop drop_drop Suc_eq_plus1 add.commute)
  have r': "sorted_wrt R (drop (Suc pos) xs)"
    using assms by (rule sorted_wrt_drop)
  show ?thesis
    unfolding spliceOneAt_def sorted_wrt_append using cross l r' sub by auto
qed

lemma set_spliceOneAt: "set (spliceOneAt pos xs) \<subseteq> set xs"
  unfolding spliceOneAt_def by (auto dest: in_set_takeD in_set_dropD)


lemma wrangle_step_newestFirst:
  assumes nf: "newestFirst saved" and st: "stampedBy d saved"
      and saved1: "saved1 = saved \<or> saved1 = spliceOneAt pos saved"
      and le: "d \<le> d'"
  shows "newestFirst (t\<lparr>closedAt := Some d\<rparr> # saved1) \<and>
         stampedBy d' (t\<lparr>closedAt := Some d\<rparr> # saved1)"
proof -
  have sub: "set saved1 \<subseteq> set saved"
    using saved1 set_spliceOneAt [of pos saved] by blast
  have nf1: "newestFirst saved1"
    using saved1 nf sorted_wrt_spliceOneAt [of _ saved pos] unfolding newestFirst_def by blast
  have st1: "stampedBy d saved1"
    using st sub unfolding stampedBy_def by auto
  have "\<forall>b \<in> set saved1. closedNoLater b (t\<lparr>closedAt := Some d\<rparr>)"
    using st1 unfolding stampedBy_def closedNoLater_def by auto
  then have "newestFirst (t\<lparr>closedAt := Some d\<rparr> # saved1)"
    using nf1 unfolding newestFirst_def by simp
  moreover have "stampedBy d' (t\<lparr>closedAt := Some d\<rparr> # saved1)"
    using st1 le unfolding stampedBy_def by fastforce
  ultimately show ?thesis by simp
qed

lemma wrangleLoop_newestFirst:
  assumes "wrangleLoop hn opt dates i ts (s, ids) = Inr (s1, ids1)"
      and "newestFirst (savedTabs s)"
      and "stampedBy (dates i) (savedTabs s)"
      and mono: "mono dates"
  shows "newestFirst (savedTabs s1)"
  using assms(1-3)
proof (induction ts arbitrary: i s ids)
  case Nil
  then show ?case by simp
next
  case (Cons t ts)
  from Cons.prems(1) obtain pos where
    pos: "getURLPositionFilterByWrangleOption hn (savedTabs s) opt t = Inr pos"
    by (auto split: sum.splits)
  define saved1 where "saved1 = (if pos > -1 then spliceOneAt (nat pos) (savedTabs s) else savedTabs s)"
  define s' where "s' = s\<lparr>savedTabs := t\<lparr>closedAt := Some (dates i)\<rparr> # saved1,
                             totalTabsWrangled := totalTabsWrangled s + 1\<rparr>"
  define ids' where "ids' = (case tab_id t of Some tabId \<Rightarrow> ids @ [tabId] | None \<Rightarrow> ids)"
  have rec: "wrangleLoop hn opt dates (Suc i) ts (s', ids') = Inr (s1, ids1)"
    using Cons.prems(1) pos by (simp add: Let_def saved1_def s'_def ids'_def)
  have "saved1 = savedTabs s \<or> saved1 = spliceOneAt (nat pos) (savedTabs s)"
    by (simp add: saved1_def)
  from wrangle_step_newestFirst [OF Cons.prems(2) Cons.prems(3) this monoD [OF mono, of i "Suc i"]]
  have "newestFirst (savedTabs s')" "stampedBy (dates (Suc i)) (savedTabs s')"
    by (simp_all add: s'_def)
  with Cons.IH [OF rec] show ?case by simp
qed


lemma newestFirst_take_drop:
  assumes "newestFirst xs" "a \<in> set (take n xs)" "b \<in> set (drop n xs)"
  shows "closedNoLater b a"
proof -
  have "sorted_wrt (\<lambda>a b. closedNoLater b a) (take n xs @ drop n xs)"
    using assms(1) unfolding newestFirst_def by simp
  then show ?thesis using assms(2,3) unfolding sorted_wrt_append by blast
qed

lemma trimSavedTabs_over:
  assumes "length (savedTabs s1) = N + k" "0 < k"
  shows "trimSavedTabs (int N) s1 =
           (s1\<lparr>savedTabs := take N (savedTabs s1)\<rparr>,
            [ConsoleLogTrimmed (map url (drop N (savedTabs s1)))])"
  using assms by (simp add: trimSavedTabs_def spliceFrom_def splice0_def Let_def min_def)

text \<open>
  Claim C7. Let the loop of \<^verbatim>\<open>wrangleTabs\<close> leave an archive of \<open>N + k\<close> entries, \<open>k > 0\<close>,
  with \<open>maxTabs = N\<close>. Then \<^verbatim>\<open>wrangleTabs\<close> returns, its archive is the first \<open>N\<close> entries
  of that list, in the same order, the entries trimmed and logged are the tail, and, the
  archive having been newest-first with no stamp later than the clock (which does not run
  backwards), every trimmed entry was closed no later than every entry kept.
\<close>

theorem archive_trimmed_to_newest:
  assumes loop: "wrangleLoop hn (wrangleOption cfg) dates 0 tabs (s, []) = Inr (s1, ids)"
      and tabs: "tabs \<noteq> []"
      and maxTabs: "maxTabs cfg = int N"
      and len: "length (savedTabs s1) = N + k" and k: "0 < k"
      and nf: "newestFirst (savedTabs s)"
      and st: "stampedBy (dates 0) (savedTabs s)"
      and mono: "mono dates"
  shows "\<exists>s2 (evs :: 'p event list). wrangleTabs cfg hn dates s tabs = Inr (s2, evs) \<and>
           savedTabs s2 = take N (savedTabs s1) \<and>
           length (savedTabs s2) = N \<and>
           ConsoleLogTrimmed (map url (drop N (savedTabs s1))) \<in> set evs \<and>
           newestFirst (savedTabs s2) \<and>
           (\<forall>a \<in> set (savedTabs s2). \<forall>b \<in> set (drop N (savedTabs s1)). closedNoLater b a)"
proof -
  let ?removal = "if length ids > 0 then [TabsRemove ids] else []"
  let ?s2 = "s1\<lparr>savedTabs := take N (savedTabs s1)\<rparr>"
  let ?evs = "?removal @ [ConsoleLogTrimmed (map url (drop N (savedTabs s1)))] :: 'p event list"
  have run: "wrangleTabs cfg hn dates s tabs = Inr (?s2, ?evs)"
    using tabs loop maxTabs
    by (simp add: wrangleTabs_def Let_def trimSavedTabs_over [OF len k])
  have nf1: "newestFirst (savedTabs s1)"
    using wrangleLoop_newestFirst [OF loop nf st mono] .
  have order: "\<forall>a \<in> set (take N (savedTabs s1)). \<forall>b \<in> set (drop N (savedTabs s1)). closedNoLater b a"
    using newestFirst_take_drop [OF nf1] by blast
  have "length (savedTabs ?s2) = N" using len by simp
  moreover have "newestFirst (savedTabs ?s2)"
    using nf1 by (simp add: newestFirst_def sorted_wrt_take)
  ultimately show ?thesis using run order
    by (intro exI [of _ ?s2] exI [of _ ?evs]) simp
qed

theorem archive_trimmed_to_newest_witness:
  "\<exists>s2 (evs :: unit event list).
     wrangleTabs (exampleSettings 0 []) (\<lambda>u. Some u) (\<lambda>i. 10)
       \<lparr>savedTabs = [closedTab 1 ''a'' 5, closedTab 2 ''b'' 3], totalTabsWrangled = 2\<rparr>
       [plainTab 9 ''z'' 5] = Inr (s2, evs) \<and>
     savedTabs s2 = [closedTab 9 ''z'' 10, closedTab 1 ''a'' 5] \<and>
     closedNoLater (closedTab 2 ''b'' 3) (closedTab 1 ''a'' 5)"
proof -
  let ?s = "\<lparr>savedTabs = [closedTab 1 ''a'' 5, closedTab 2 ''b'' 3], totalTabsWrangled = 2\<rparr>"
  let ?s1 = "\<lparr>savedTabs = [closedTab 9 ''z'' 10, closedTab 1 ''a'' 5, closedTab 2 ''b'' 3],
              totalTabsWrangled = 3\<rparr>"
  have loop: "wrangleLoop (\<lambda>u. Some u) (wrangleOption (exampleSettings 0 [])) (\<lambda>i. 10) 0
                [plainTab 9 ''z'' 5] (?s, []) = Inr (?s1, [9])"
    by (simp add: closedTab_eq)
  have tabs: "[plainTab 9 ''z'' 5] \<noteq> []" by simp
  have maxTabs: "maxTabs (exampleSettings 0 []) = int 2" by simp
  have len: "length (savedTabs ?s1) = 2 + 1" by simp
  have k: "(0::nat) < 1" by simp
  have nf: "newestFirst (savedTabs ?s)"
    by (simp add: newestFirst_def closedNoLater_def)
  have st: "stampedBy ((\<lambda>i. 10) (0::nat)) (savedTabs ?s)"
    by (simp add: stampedBy_def)
  have mono: "mono (\<lambda>i :: nat. 10 :: int)" by (simp add: mono_def)
  from archive_trimmed_to_newest [OF loop tabs maxTabs len k nf st mono, where ?'p = unit]
  show ?thesis by (auto simp: numeral_2_eq_2)
qed

section \<open>Rescheduling\<close>

text \<open>The \<^verbatim>\<open>try\<close> block only ever adds to the log of events.\<close>

lemma checkToCloseTry_events:
  "\<exists>evs. events (snd (checkToCloseTry cfg env st)) = events st @ evs"
proof (cases "getStorageSyncPersist_paused env")
  case (Inl e)
  then show ?thesis by (simp add: checkToCloseTry_def)
next
  case (Inr paused)
  show ?thesis
  proof (cases paused)
    case True
    then show ?thesis using Inr by (simp add: checkToCloseTry_def)
  next
    case False
    obtain r c' evs where cs:
      "criticalSection cfg env (now_cutOff env - stayOpen cfg) (tabTimesCache st) = (r, c', evs)"
      by (cases "criticalSection cfg env (now_cutOff env - stayOpen cfg) (tabTimesCache st)") auto
    show ?thesis using Inr False cs
      by (auto simp: checkToCloseTry_def Let_def split: sum.splits prod.splits)
  qed
qed

text \<open>
  Claim C8. Whatever the platform answers during a run of \<^verbatim>\<open>checkToClose\<close> (the extension
  is paused, every call succeeds, or any of the awaited calls is rejected or throws), the
  last thing the run does is to create the \<^verbatim>\<open>checkToClose\<close> alarm again, with the delay
  computed from \<open>stayOpen\<close>.
\<close>

theorem checkToClose_always_reschedules:
  "\<exists>evs. events (checkToClose cfg env st) =
           events st @ evs @
           [AlarmsCreate CHECK_TO_CLOSE_ALARM
              (max 30000 (min 10800000 (rat_of_int (stayOpen cfg) / 20)) / 60000)]"
proof -
  obtain r st1 where t: "checkToCloseTry cfg env st = (r, st1)"
    by (cases "checkToCloseTry cfg env st") auto
  obtain evs where e: "events st1 = events st @ evs"
    using checkToCloseTry_events [of cfg env st] t by auto
  show ?thesis using t e
    by (auto simp: checkToClose_def scheduleCheckToClose_def Let_def split: sum.splits)
qed

theorem checkToClose_always_reschedules_witness:
  "last (events (checkToClose (exampleSettings 0 [])
           ((exampleEnv 1000 [] [] [])\<lparr>tabs_query_all := Inl Rejected\<rparr>)
           \<lparr>tabTimesCache = exampleCache [], startupComplete = True, events = []\<rparr>)) =
   AlarmsCreate ''checkToClose'' (1 / 2)"
proof -
  from checkToClose_always_reschedules [of "exampleSettings 0 []"
      "(exampleEnv 1000 [] [] [])\<lparr>tabs_query_all := Inl Rejected\<rparr>"
      "\<lparr>tabTimesCache = exampleCache [], startupComplete = True, events = []\<rparr>"]
  obtain evs where "events (checkToClose (exampleSettings 0 [])
           ((exampleEnv 1000 [] [] [])\<lparr>tabs_query_all := Inl Rejected\<rparr>)
           \<lparr>tabTimesCache = exampleCache [], startupComplete = True, events = []\<rparr>) =
      evs @ [AlarmsCreate CHECK_TO_CLOSE_ALARM
              (max 30000 (min 10800000 (rat_of_int (stayOpen (exampleSettings 0 [])) / 20)) / 60000)]"
    by auto
  then show ?thesis by (simp add: CHECK_TO_CLOSE_ALARM_def)
qed

section \<open>Startup migration\<close>

lemma migrateLoop_other:
  assumes "\<forall>a \<in> set ts. tab_id a \<noteq> Some i"
  shows "map_of (fst (migrateLoop tabTimes byUrl now ts (nextTabTimes, m))) (IdKey i) =
           map_of nextTabTimes (IdKey i)"
  using assms
proof (induction ts arbitrary: nextTabTimes m)
  case Nil
  show ?case by simp
next
  case (Cons a ts)
  then show ?case
    by (cases "tab_id a") (auto simp: update_conv' split: option.splits)
qed

lemma migrateLoop_tab:
  assumes "distinct (map tab_id (filter (\<lambda>t. tab_id t \<noteq> None) ts))"
      and "t \<in> set ts" and "tab_id t = Some i"
  shows "map_of (fst (migrateLoop tabTimes byUrl now ts (nextTabTimes, m))) (IdKey i) =
           Some (case map_of tabTimes (IdKey i) of
                   Some v \<Rightarrow> v
                 | None \<Rightarrow>
                     (case (case url t of None \<Rightarrow> None
                            | Some u \<Rightarrow> if u = [] then None else map_of byUrl u) of
                        Some v \<Rightarrow> v
                      | None \<Rightarrow> now))"
  using assms
proof (induction ts arbitrary: nextTabTimes m)
  case Nil
  then show ?case by simp
next
  case (Cons a ts)
  show ?case
  proof (cases "t = a")
    case True
    have rest: "\<forall>b \<in> set ts. tab_id b \<noteq> Some i"
      using Cons.prems(1,3) True by (auto simp: image_iff)
    show ?thesis using True Cons.prems(3)
      by (simp add: migrateLoop_other [OF rest] update_conv' split: option.splits)
  next
    case False
    then have t: "t \<in> set ts" using Cons.prems(2) by simp
    have d: "distinct (map tab_id (filter (\<lambda>t. tab_id t \<noteq> None) ts))"
      using Cons.prems(1) by (simp split: if_splits)
    have "\<exists>st'. migrateLoop tabTimes byUrl now (a # ts) (nextTabTimes, m) =
        migrateLoop tabTimes byUrl now ts st'"
      by (simp del: split_paired_Ex) blast
    then obtain n' m' where step: "migrateLoop tabTimes byUrl now (a # ts) (nextTabTimes, m) =
        migrateLoop tabTimes byUrl now ts (n', m')"
      by (metis surj_pair)
    show ?thesis unfolding step by (rule Cons.IH [OF d t Cons.prems(3)])
  qed
qed

lemma startupMigration_ok:
  assumes get: "storage_local_get env = Inr (tabTimes, byUrl)"
      and query: "startup_tabs_query env = Inr allTabs"
  shows "startupMigration env c =
           Inr (initTabTimes (fst (migrateLoop tabTimes byUrl (startup_now env) allTabs ([], 0)))
                  (Some byUrl) c,
                [StorageLocalSetTabTimes
                   (fst (migrateLoop tabTimes byUrl (startup_now env) allTabs ([], 0))) byUrl])"
  using assms
  by (simp add: startupMigration_def Let_def case_prod_beta initTabTimes_def forceSyncTabTimes_def)

lemma exampleStartupEnv_simps [simp]:
  "settings_init exampleStartupEnv = Inr ()"
  "startup_paused exampleStartupEnv = Inr False"
  "removeAllSavedTabs exampleStartupEnv = Inr ()"
  "storage_local_get exampleStartupEnv = Inr ([(IdKey 1, 10)], [(''b'', 20)])"
  "startup_tabs_query exampleStartupEnv =
     Inr [plainTab 1 ''a'' 5, plainTab 2 ''b'' 5, plainTab 3 ''c'' 5]"
  "startup_now exampleStartupEnv = 1000"
  by (simp_all add: exampleStartupEnv_def)

text \<open>The steps of \<^verbatim>\<open>startup\<close> that can fail, and what a failure leaves behind.\<close>

lemma startup_failure:
  assumes "fst (startup cfg env st) = Inl e"
  shows "startupComplete (snd (startup cfg env st)) = startupComplete st \<and>
         tabTimesCache (snd (startup cfg env st)) = tabTimesCache st \<and>
         SetStartupComplete \<notin> set (drop (length (events st)) (events (snd (startup cfg env st))))"
proof (cases "settings_init env")
  case (Inl e1)
  then show ?thesis by (simp add: startup_def)
next
  case init: (Inr u)
  show ?thesis
  proof (cases "startup_paused env")
    case (Inl e2)
    then show ?thesis using init by (simp add: startup_def)
  next
    case paused: (Inr p)
    show ?thesis
    proof (cases "if purgeClosedTabs cfg then removeAllSavedTabs env else Inr ()")
      case (Inl e3)
      then show ?thesis using init paused by (simp add: startup_def Let_def)
    next
      case purge: (Inr u')
      show ?thesis
      proof (cases "startupMigration env (tabTimesCache st) :: error + cache \<times> 'a event list")
        case (Inl e4)
        then show ?thesis using init paused purge by (simp add: startup_def Let_def)
      next
        case (Inr r)
        then have "fst (startup cfg env st) = Inr ()"
          using init paused purge by (cases r) (simp add: startup_def Let_def)
        then show ?thesis using assms by simp
      qed
    qed
  qed
qed

text \<open>
  Claim C5. First, a run of \<^verbatim>\<open>startup\<close> that fails (a rejected call at any step up to and
  including the migration) leaves \<open>startupComplete\<close> and the cache as they were and does not
  set the flag. Second, let the calls of \<^verbatim>\<open>startup\<close> succeed, the live tabs have distinct
  ids (the platform's tab ids are unique), and the stored URL map have no entry for the
  empty URL (the code never writes one). Then \<^verbatim>\<open>startup\<close> returns and, for every live tab
  with an id, the cache holds the stored id-map's timestamp if the id has an entry, otherwise
  the URL map's timestamp if the tab's URL has an entry, otherwise the clock reading of the
  run. The cache is initialised with the reconciled map, and the effects of the run are, in
  this order: the icon and the badge, the write of the reconciled map to storage, the
  assignment of \<open>startupComplete\<close>, and the alarm of the first check.
\<close>

theorem startup_migration_reconciles:
  "(\<forall>e. fst (startup cfg env st) = Inl e \<longrightarrow>
      startupComplete (snd (startup cfg env st)) = startupComplete st \<and>
      tabTimesCache (snd (startup cfg env st)) = tabTimesCache st \<and>
      SetStartupComplete \<notin> set (drop (length (events st)) (events (snd (startup cfg env st))))) \<and>
   (settings_init env = Inr () \<and>
    startup_paused env = Inr paused \<and>
    (purgeClosedTabs cfg \<longrightarrow> removeAllSavedTabs env = Inr ()) \<and>
    storage_local_get env = Inr (tabTimes, byUrl) \<and>
    startup_tabs_query env = Inr allTabs \<and>
    distinct (map tab_id (filter (\<lambda>t. tab_id t \<noteq> None) allTabs)) \<and>
    map_of byUrl [] = None \<longrightarrow>
    (\<exists>c'.
       (\<forall>t \<in> set allTabs. \<forall>i. tab_id t = Some i \<longrightarrow>
          map_of (memoryTabTimes c') (IdKey i) =
            Some (case map_of tabTimes (IdKey i) of
                    Some v \<Rightarrow> v
                  | None \<Rightarrow>
                      (case (case url t of None \<Rightarrow> None | Some u \<Rightarrow> map_of byUrl u) of
                         Some v \<Rightarrow> v
                       | None \<Rightarrow> startup_now env))) \<and>
       isInitialized c' \<and>
       memoryTabTimesByUrl c' = byUrl \<and>
       startup cfg env st =
         (Inr (),
          st\<lparr>tabTimesCache := c',
              startupComplete := True,
              events := events st @
                [SetIcon (if paused then ''img/icon-paused.png'' else ''img/icon.png''),
                 UpdateClosedCount,
                 StorageLocalSetTabTimes (memoryTabTimes c') byUrl,
                 SetStartupComplete,
                 AlarmsCreate CHECK_TO_CLOSE_ALARM
                   (max 30000 (min 10800000 (rat_of_int (stayOpen cfg) / 20)) / 60000)]\<rparr>)))"
proof (intro conjI allI impI)
  fix e assume f: "fst (startup cfg env st) = Inl e"
  show "startupComplete (snd (startup cfg env st)) = startupComplete st"
    and "tabTimesCache (snd (startup cfg env st)) = tabTimesCache st"
    and "SetStartupComplete \<notin> set (drop (length (events st)) (events (snd (startup cfg env st))))"
    using startup_failure [OF f] by simp_all
next
  assume h: "settings_init env = Inr () \<and>
    startup_paused env = Inr paused \<and>
    (purgeClosedTabs cfg \<longrightarrow> removeAllSavedTabs env = Inr ()) \<and>
    storage_local_get env = Inr (tabTimes, byUrl) \<and>
    startup_tabs_query env = Inr allTabs \<and>
    distinct (map tab_id (filter (\<lambda>t. tab_id t \<noteq> None) allTabs)) \<and>
    map_of byUrl [] = None"
  then have init: "settings_init env = Inr ()"
    and paused: "startup_paused env = Inr paused"
    and purge: "purgeClosedTabs cfg \<longrightarrow> removeAllSavedTabs env = Inr ()"
    and get: "storage_local_get env = Inr (tabTimes, byUrl)"
    and query: "startup_tabs_query env = Inr allTabs"
    and ids: "distinct (map tab_id (filter (\<lambda>t. tab_id t \<noteq> None) allTabs))"
    and nokey: "map_of byUrl [] = None"
    by simp_all
  let ?next = "fst (migrateLoop tabTimes byUrl (startup_now env) allTabs ([], 0))"
  let ?c = "initTabTimes ?next (Some byUrl) (tabTimesCache st)"
  have mem: "memoryTabTimes ?c = ?next" and ini: "isInitialized ?c"
    and mu: "memoryTabTimesByUrl ?c = byUrl"
    by (simp_all add: initTabTimes_def)
  have url_eq: "(case url t of None \<Rightarrow> None | Some u \<Rightarrow> if u = [] then None else map_of byUrl u)
                 = (case url t of None \<Rightarrow> None | Some u \<Rightarrow> map_of byUrl u)" for t
    using nokey by (cases "url t") auto
  have rule: "map_of (memoryTabTimes ?c) (IdKey i) =
                Some (case map_of tabTimes (IdKey i) of
                        Some v \<Rightarrow> v
                      | None \<Rightarrow>
                          (case (case url t of None \<Rightarrow> None | Some u \<Rightarrow> map_of byUrl u) of
                             Some v \<Rightarrow> v
                           | None \<Rightarrow> startup_now env))"
    if "t \<in> set allTabs" "tab_id t = Some i" for t i
    unfolding mem using migrateLoop_tab [OF ids that, of tabTimes byUrl "startup_now env" "[]" 0]
    by (simp only: url_eq)
  have purge': "(if purgeClosedTabs cfg then removeAllSavedTabs env else Inr ()) = Inr ()"
    using purge by simp
  have run: "startup cfg env st =
         (Inr (),
          st\<lparr>tabTimesCache := ?c,
              startupComplete := True,
              events := events st @
                [SetIcon (if paused then ''img/icon-paused.png'' else ''img/icon.png''),
                 UpdateClosedCount,
                 StorageLocalSetTabTimes (memoryTabTimes ?c) byUrl,
                 SetStartupComplete,
                 AlarmsCreate CHECK_TO_CLOSE_ALARM
                   (max 30000 (min 10800000 (rat_of_int (stayOpen cfg) / 20)) / 60000)]\<rparr>)"
    unfolding startup_def
    by (simp add: init paused purge' startupMigration_ok [OF get query] Let_def mem
          scheduleCheckToClose_def)
  show "\<exists>c'.
       (\<forall>t \<in> set allTabs. \<forall>i. tab_id t = Some i \<longrightarrow>
          map_of (memoryTabTimes c') (IdKey i) =
            Some (case map_of tabTimes (IdKey i) of
                    Some v \<Rightarrow> v
                  | None \<Rightarrow>
                      (case (case url t of None \<Rightarrow> None | Some u \<Rightarrow> map_of byUrl u) of
                         Some v \<Rightarrow> v
                       | None \<Rightarrow> startup_now env))) \<and>
       isInitialized c' \<and>
       memoryTabTimesByUrl c' = byUrl \<and>
       startup cfg env st =
         (Inr (),
          st\<lparr>tabTimesCache := c',
              startupComplete := True,
              events := events st @
                [SetIcon (if paused then ''img/icon-paused.png'' else ''img/icon.png''),
                 UpdateClosedCount,
                 StorageLocalSetTabTimes (memoryTabTimes c') byUrl,
                 SetStartupComplete,
                 AlarmsCreate CHECK_TO_CLOSE_ALARM
                   (max 30000 (min 10800000 (rat_of_int (stayOpen cfg) / 20)) / 60000)]\<rparr>)"
    using rule ini mu run by (intro exI [of _ ?c]) blast
qed

theorem startup_migration_reconciles_witness:
  "\<not> startupComplete (snd (startup (exampleSettings 0 [])
        (exampleStartupEnv\<lparr>startup_tabs_query := Inl Rejected\<rparr>)
        (freshBackground :: unit background))) \<and>
   map_of (memoryTabTimes (tabTimesCache (snd (startup (exampleSettings 0 []) exampleStartupEnv
        (freshBackground :: unit background))))) (IdKey 1) = Some 10 \<and>
   map_of (memoryTabTimes (tabTimesCache (snd (startup (exampleSettings 0 []) exampleStartupEnv
        (freshBackground :: unit background))))) (IdKey 2) = Some 20 \<and>
   map_of (memoryTabTimes (tabTimesCache (snd (startup (exampleSettings 0 []) exampleStartupEnv
        (freshBackground :: unit background))))) (IdKey 3) = Some 1000 \<and>
   isInitialized (tabTimesCache (snd (startup (exampleSettings 0 []) exampleStartupEnv
        (freshBackground :: unit background)))) \<and>
   startupComplete (snd (startup (exampleSettings 0 []) exampleStartupEnv
        (freshBackground :: unit background))) \<and>
   (\<exists>tt. events (snd (startup (exampleSettings 0 []) exampleStartupEnv
        (freshBackground :: unit background))) =
      [SetIcon ''img/icon.png'', UpdateClosedCount, StorageLocalSetTabTimes tt [(''b'', 20)],
       SetStartupComplete, AlarmsCreate ''checkToClose'' (1 / 2)])"
proof -
  let ?cfg = "exampleSettings 0 []"
  let ?fail = "exampleStartupEnv\<lparr>startup_tabs_query := Inl Rejected\<rparr>"
  let ?st = "freshBackground :: unit background"
  have failed: "fst (startup ?cfg ?fail ?st) = Inl Rejected"
    by (simp add: startup_def startupMigration_def exampleStartupEnv_def exampleSettings_def Let_def)
  have fresh: "\<not> startupComplete ?st" "events ?st = []"
    by (simp_all add: freshBackground_def)
  have 1: "\<not> startupComplete (snd (startup ?cfg ?fail ?st))"
    using startup_migration_reconciles [of ?cfg ?fail ?st] failed fresh by blast
  have hyps: "settings_init exampleStartupEnv = Inr () \<and>
    startup_paused exampleStartupEnv = Inr False \<and>
    (purgeClosedTabs ?cfg \<longrightarrow> removeAllSavedTabs exampleStartupEnv = Inr ()) \<and>
    storage_local_get exampleStartupEnv = Inr ([(IdKey 1, 10)], [(''b'', 20)]) \<and>
    startup_tabs_query exampleStartupEnv =
      Inr [plainTab 1 ''a'' 5, plainTab 2 ''b'' 5, plainTab 3 ''c'' 5] \<and>
    distinct (map tab_id (filter (\<lambda>t. tab_id t \<noteq> None)
               [plainTab 1 ''a'' 5, plainTab 2 ''b'' 5, plainTab 3 ''c'' 5])) \<and>
    map_of [(''b'', 20::int)] [] = None"
    by simp
  from startup_migration_reconciles [of ?cfg exampleStartupEnv ?st False "[(IdKey 1, 10)]"
      "[(''b'', 20)]" "[plainTab 1 ''a'' 5, plainTab 2 ''b'' 5, plainTab 3 ''c'' 5]"] hyps
  obtain c' where
    r: "\<forall>t \<in> set [plainTab 1 ''a'' 5, plainTab 2 ''b'' 5, plainTab 3 ''c'' 5]. \<forall>i.
          tab_id t = Some i \<longrightarrow>
          map_of (memoryTabTimes c') (IdKey i) =
            Some (case map_of [(IdKey 1, 10)] (IdKey i) of
                    Some v \<Rightarrow> v
                  | None \<Rightarrow>
                      (case (case url t of None \<Rightarrow> None | Some u \<Rightarrow> map_of [(''b'', 20)] u) of
                         Some v \<Rightarrow> v
                       | None \<Rightarrow> startup_now exampleStartupEnv))"
    and i: "isInitialized c'"
    and run: "startup ?cfg exampleStartupEnv ?st =
         (Inr (),
          ?st\<lparr>tabTimesCache := c',
              startupComplete := True,
              events := events ?st @
                [SetIcon (if False then ''img/icon-paused.png'' else ''img/icon.png''),
                 UpdateClosedCount,
                 StorageLocalSetTabTimes (memoryTabTimes c') [(''b'', 20)],
                 SetStartupComplete,
                 AlarmsCreate CHECK_TO_CLOSE_ALARM
                   (max 30000 (min 10800000 (rat_of_int (stayOpen ?cfg) / 20)) / 60000)]\<rparr>)"
    by blast
  have 2: "map_of (memoryTabTimes c') (IdKey 1) = Some 10"
       "map_of (memoryTabTimes c') (IdKey 2) = Some 20"
       "map_of (memoryTabTimes c') (IdKey 3) = Some 1000"
    using r by simp_all
  show ?thesis
    using 1 2 i by (simp add: run fresh CHECK_TO_CLOSE_ALARM_def)
qed

section \<open>Two runs in succession\<close>

text \<open>
  Every entry of the cache after a step of the cycle is an entry of the cache before it,
  or carries the time \<open>updatedAt\<close>.
\<close>

lemma set_update_subset: "set (AList.update k v al) \<subseteq> insert (k, v) (set al)"
  by (induction al) auto

lemma setTabTimeSilent_entries:
  "set (setTabTimeSilent k u tt) \<subseteq> set tt \<union> UNIV \<times> {u}"
  using set_update_subset [of k u tt] by (auto simp: setTabTimeSilent_def)

lemma entries_trans:
  assumes "set b \<subseteq> set a \<union> UNIV \<times> {u}" "set c \<subseteq> set b \<union> UNIV \<times> {u}"
  shows "set c \<subseteq> set a \<union> UNIV \<times> {u :: int}"
  using assms by blast

lemma refreshActiveTabs_entries:
  "set (refreshActiveTabs u ts tt) \<subseteq> set tt \<union> UNIV \<times> {u}"
  unfolding refreshActiveTabs_def
proof (induction ts arbitrary: tt)
  case Nil
  show ?case by simp
next
  case (Cons a ts)
  show ?case
    using Cons.IH [of "setTabTimeSilent (String_of_id (tab_id a)) u tt"]
      setTabTimeSilent_entries [of "String_of_id (tab_id a)" u tt]
    by auto
qed

lemma refreshAudibleTabs_entries:
  "set (refreshAudibleTabs cfg u ts tt) \<subseteq> set tt \<union> UNIV \<times> {u}"
proof -
  have "set (fold (\<lambda>t acc. if audible t
                          then setTabTimeSilent (String_of_id (tab_id t)) u acc
                          else acc) ts tt) \<subseteq> set tt \<union> UNIV \<times> {u}"
  proof (induction ts arbitrary: tt)
    case Nil
    show ?case by simp
  next
    case (Cons a ts)
    show ?case
      using Cons.IH [of "setTabTimeSilent (String_of_id (tab_id a)) u tt"] Cons.IH [of tt]
        setTabTimeSilent_entries [of "String_of_id (tab_id a)" u tt]
      by auto
  qed
  then show ?thesis by (simp add: refreshAudibleTabs_def)
qed

lemma resetLoop_entries:
  "set (resetLoop r u ts tt) \<subseteq> set tt \<union> UNIV \<times> {u}"
proof (induction ts arbitrary: tt)
  case Nil
  show ?case by simp
next
  case (Cons a ts)
  show ?case
  proof (cases "tab_id a")
    case None
    then show ?thesis using Cons.IH [of tt] by simp
  next
    case (Some i)
    then show ?thesis
      using Cons.IH [of "setTabTimeSilent (IdKey i) u tt"] Cons.IH [of tt]
        setTabTimeSilent_entries [of "IdKey i" u tt]
      by auto
  qed
qed

lemma candidatesLoop_entries:
  "set (snd (candidatesLoop locked u ts tt)) \<subseteq> set tt \<union> UNIV \<times> {u}"
proof (induction ts arbitrary: tt)
  case Nil
  show ?case by simp
next
  case (Cons a ts)
  show ?case
  proof (cases "tab_id a")
    case None
    then show ?thesis using Cons.IH [of tt] by simp
  next
    case (Some i)
    then show ?thesis
      using Cons.IH [of "setTabTimeSilent (IdKey i) u tt"] Cons.IH [of tt]
        setTabTimeSilent_entries [of "IdKey i" u tt]
      by (auto simp: case_prod_beta)
  qed
qed

lemma findTabsToCloseCandidates_entries:
  "set (snd (findTabsToCloseCandidates cfg toCut u tabs r tt)) \<subseteq> set tt \<union> UNIV \<times> {u}"
  using resetLoop_entries candidatesLoop_entries
  by (simp add: findTabsToCloseCandidates_def Let_def)

lemma perWindowCandidates_entries:
  "set (snd (perWindowCandidates cfg toCut u byWin wins tt)) \<subseteq> set tt \<union> UNIV \<times> {u}"
proof (induction wins arbitrary: tt)
  case Nil
  show ?case by simp
next
  case (Cons win wins)
  define step where "step = (case win_id win of
               None \<Rightarrow> ([], tt)
             | Some w \<Rightarrow>
                 findTabsToCloseCandidates cfg toCut u (tabsOfWindow byWin w) (focused win) tt)"
  have s: "set (snd step) \<subseteq> set tt \<union> UNIV \<times> {u}"
    using findTabsToCloseCandidates_entries by (auto simp: step_def split: option.splits)
  have "snd (perWindowCandidates cfg toCut u byWin (win # wins) tt) =
          snd (perWindowCandidates cfg toCut u byWin wins (snd step))"
    by (simp add: step_def case_prod_beta Let_def)
  then show ?case using Cons.IH [of "snd step"] s by auto
qed


lemma recomputeLoop_entries:
  "set (fst (recomputeLoop u ts (tt, tu, al))) \<subseteq> set tt \<union> UNIV \<times> {u}"
proof (induction ts arbitrary: tt tu al)
  case Nil
  show ?case by simp
next
  case (Cons a ts)
  show ?case
  proof (cases "tab_id a")
    case None
    then show ?thesis using Cons.IH [of tt tu al] by simp
  next
    case (Some i)
    define time where "time = timeOrDefault tt (IdKey i) u"
    define tt' where "tt' = setTabTimeSilent (IdKey i) time tt"
    have time: "time = u \<or> (IdKey i, time) \<in> set tt"
      by (auto simp: time_def timeOrDefault_def split: option.splits dest: map_of_SomeD)
    have tt': "set tt' \<subseteq> set tt \<union> UNIV \<times> {u}"
      using time set_update_subset [of "IdKey i" time tt]
      by (auto simp: tt'_def setTabTimeSilent_def)
    have "\<exists>tu' al'. recomputeLoop u (a # ts) (tt, tu, al) = recomputeLoop u ts (tt', tu', al')"
      using Some by (auto simp: Let_def time_def tt'_def split: option.splits)
    then obtain tu' al' where
      "recomputeLoop u (a # ts) (tt, tu, al) = recomputeLoop u ts (tt', tu', al')" by blast
    then show ?thesis using Cons.IH [of tt' tu' al'] tt' by auto
  qed
qed

lemma recomputeAndPrune_entries:
  "set (memoryTabTimes (recomputeAndPrune u allTabs c)) \<subseteq> set (memoryTabTimes c) \<union> UNIV \<times> {u}"
proof -
  let ?tt = "cleanUpTabTimes allTabs (memoryTabTimes c)"
  have c: "set ?tt \<subseteq> set (memoryTabTimes c)"
    by (auto simp: cleanUpTabTimes_def Let_def)
  have "memoryTabTimes (recomputeAndPrune u allTabs c) =
          fst (recomputeLoop u allTabs (?tt, memoryTabTimesByUrl c, []))"
    by (simp add: recomputeAndPrune_def Let_def case_prod_beta)
  then show ?thesis
    using recomputeLoop_entries [of u allTabs ?tt "memoryTabTimesByUrl c" "[]"] c by auto
qed

lemma selectCandidates_entries:
  assumes "selectCandidates cfg env toCut u allTabs tt = Inr (cands, tt')"
  shows "set tt' \<subseteq> set tt \<union> UNIV \<times> {u}"
proof (cases "minTabsStrategy cfg = ''allWindows''")
  case True
  then have "tt' = snd (findTabsToCloseCandidates cfg toCut u allTabs False tt)"
    using assms by (auto simp: selectCandidates_def)
  then show ?thesis using findTabsToCloseCandidates_entries by simp
next
  case False
  show ?thesis
  proof (cases "windows_getAll env")
    case (Inl e)
    then show ?thesis using assms False by (simp add: selectCandidates_def)
  next
    case (Inr windows)
    then have "tt' = snd (perWindowCandidates cfg toCut u (tabsByWindowId allTabs) windows tt)"
      using assms False by (auto simp: selectCandidates_def)
    then show ?thesis using perWindowCandidates_entries by simp
  qed
qed

lemma criticalSection_unfold:
  assumes "tabs_query_all env = Inr allTabs" "tabs_query_active env = Inr activeTabs"
  shows "criticalSection cfg env cutOff c =
     (case selectCandidates cfg env (set (getTabsOlderThan (memoryTabTimes c) cutOff))
             (now_updatedAt env) allTabs
             (refreshAudibleTabs cfg (now_updatedAt env) allTabs
                (refreshActiveTabs (now_updatedAt env) activeTabs (memoryTabTimes c))) of
        Inl (e, tt3) \<Rightarrow> (Inl e, c\<lparr>memoryTabTimes := tt3\<rparr>, [])
      | Inr (candidateTabs, tt3) \<Rightarrow>
          (Inr candidateTabs,
           recomputeAndPrune (now_updatedAt env) allTabs (c\<lparr>memoryTabTimes := tt3\<rparr>),
           forceSyncTabTimes
             (recomputeAndPrune (now_updatedAt env) allTabs (c\<lparr>memoryTabTimes := tt3\<rparr>))))"
  using assms by (simp add: criticalSection_def getTabTimes_def Let_def split: sum.splits prod.splits)

lemma criticalSection_success:
  assumes "criticalSection cfg env cutOff c = (Inr cands, c1, evs)"
  obtains allTabs activeTabs tt3 where
    "tabs_query_all env = Inr allTabs" "tabs_query_active env = Inr activeTabs"
    "selectCandidates cfg env (set (getTabsOlderThan (memoryTabTimes c) cutOff))
             (now_updatedAt env) allTabs
             (refreshAudibleTabs cfg (now_updatedAt env) allTabs
                (refreshActiveTabs (now_updatedAt env) activeTabs (memoryTabTimes c)))
       = Inr (cands, tt3)"
    "c1 = recomputeAndPrune (now_updatedAt env) allTabs (c\<lparr>memoryTabTimes := tt3\<rparr>)"
proof (cases "tabs_query_all env")
  case (Inl e)
  then show ?thesis using assms by (simp add: criticalSection_def)
next
  case all: (Inr allTabs)
  show ?thesis
  proof (cases "tabs_query_active env")
    case (Inl e)
    then show ?thesis using assms all by (simp add: criticalSection_def Let_def)
  next
    case act: (Inr activeTabs)
    show ?thesis
    proof (cases "selectCandidates cfg env (set (getTabsOlderThan (memoryTabTimes c) cutOff))
             (now_updatedAt env) allTabs
             (refreshAudibleTabs cfg (now_updatedAt env) allTabs
                (refreshActiveTabs (now_updatedAt env) activeTabs (memoryTabTimes c)))")
      case (Inl p)
      then show ?thesis using assms
        unfolding criticalSection_unfold [OF all act] by (cases p) simp
    next
      case (Inr p)
      obtain cs tt3 where p: "p = (cs, tt3)" by (cases p)
      show ?thesis using assms that [OF all act, of tt3] Inr p
        unfolding criticalSection_unfold [OF all act] by simp
    qed
  qed
qed

lemma criticalSection_entries:
  assumes "criticalSection cfg env cutOff c = (Inr cands, c1, evs)"
  shows "set (memoryTabTimes c1) \<subseteq> set (memoryTabTimes c) \<union> UNIV \<times> {now_updatedAt env}"
proof -
  let ?u = "now_updatedAt env"
  from criticalSection_success [OF assms] obtain allTabs activeTabs tt3 where
    sel: "selectCandidates cfg env (set (getTabsOlderThan (memoryTabTimes c) cutOff)) ?u allTabs
             (refreshAudibleTabs cfg ?u allTabs (refreshActiveTabs ?u activeTabs (memoryTabTimes c)))
           = Inr (cands, tt3)"
    and c1: "c1 = recomputeAndPrune ?u allTabs (c\<lparr>memoryTabTimes := tt3\<rparr>)"
    by blast
  let ?tt1 = "refreshActiveTabs ?u activeTabs (memoryTabTimes c)"
  let ?tt2 = "refreshAudibleTabs cfg ?u allTabs ?tt1"
  have 1: "set ?tt1 \<subseteq> set (memoryTabTimes c) \<union> UNIV \<times> {?u}"
    by (rule refreshActiveTabs_entries)
  have 2: "set ?tt2 \<subseteq> set ?tt1 \<union> UNIV \<times> {?u}"
    by (rule refreshAudibleTabs_entries)
  have 3: "set tt3 \<subseteq> set ?tt2 \<union> UNIV \<times> {?u}"
    by (rule selectCandidates_entries [OF sel])
  have 4: "set (memoryTabTimes c1) \<subseteq> set tt3 \<union> UNIV \<times> {?u}"
    unfolding c1 using recomputeAndPrune_entries [of ?u allTabs "c\<lparr>memoryTabTimes := tt3\<rparr>"]
    by simp
  show ?thesis
    by (rule entries_trans [OF entries_trans [OF entries_trans [OF 1 2] 3] 4])
qed

text \<open>The candidate lists in closed form, and the groups of the per-window strategy.\<close>

lemma fst_findTabsToCloseCandidates:
  "fst (findTabsToCloseCandidates cfg toCut u tabs r tt) = candidatesOf cfg toCut tabs"
proof -
  let ?F = "filter (createShouldTabBeClosedFilter cfg) tabs"
  let ?P = "take (nat (int (length ?F) - minTabs cfg)) (filter (inToCut toCut) ?F)"
  show ?thesis
  proof (cases "int (length ?F) - minTabs cfg \<le> 0")
    case True
    then show ?thesis
      by (simp add: findTabsToCloseCandidates_def candidatesOf_def Let_def)
  next
    case False
    have P: "createShouldTabBeClosedFilter cfg t" if "t \<in> set ?P" for t
      using in_set_takeD [OF that] by simp
    have "fst (findTabsToCloseCandidates cfg toCut u tabs r tt) =
            filter (\<lambda>t. \<exists>i. tab_id t = Some i \<and> i \<notin> set (lockedIds cfg)) ?P"
    proof (cases "?P = []")
      case True
      then show ?thesis using False
        by (simp add: findTabsToCloseCandidates_def Let_def splice0_def)
    next
      case nonempty: False
      then show ?thesis using False
        by (simp add: findTabsToCloseCandidates_def Let_def splice0_def fst_candidatesLoop)
    qed
    also have "\<dots> = filter (\<lambda>t. tab_id t \<noteq> None) ?P"
    proof (rule filter_cong [OF refl])
      fix t assume "t \<in> set ?P"
      then have "createShouldTabBeClosedFilter cfg t" by (rule P)
      then show "(\<exists>i. tab_id t = Some i \<and> i \<notin> set (lockedIds cfg)) = (tab_id t \<noteq> None)"
        using should_not_locked by (cases "tab_id t") auto
    qed
    finally show ?thesis using False by (simp add: candidatesOf_def Let_def)
  qed
qed

lemma fst_perWindowCandidates:
  "fst (perWindowCandidates cfg toCut u byWin wins tt) =
     concat (map (\<lambda>win. case win_id win of
                          None \<Rightarrow> []
                        | Some w \<Rightarrow> candidatesOf cfg toCut (tabsOfWindow byWin w)) wins)"
proof (induction wins arbitrary: tt)
  case Nil
  show ?case by simp
next
  case (Cons win wins)
  show ?case
  proof (cases "win_id win")
    case None
    then show ?thesis using Cons.IH [of tt] by (simp add: case_prod_beta)
  next
    case (Some w)
    then show ?thesis
      using Cons.IH [of "snd (findTabsToCloseCandidates cfg toCut u (tabsOfWindow byWin w)
                                (focused win) tt)"]
      by (simp add: case_prod_beta fst_findTabsToCloseCandidates)
  qed
qed

lemma tabsOfWindow_fold:
  "tabsOfWindow
     (fold (\<lambda>t acc. case windowId t of
                      None \<Rightarrow> acc
                    | Some w \<Rightarrow>
                        AList.update w
                          ((case map_of acc w of None \<Rightarrow> [] | Some ts \<Rightarrow> ts) @ [t]) acc)
          ts acc) w =
   tabsOfWindow acc w @ filter (\<lambda>t. windowId t = Some w) ts"
proof (induction ts arbitrary: acc)
  case Nil
  show ?case by simp
next
  case (Cons a ts)
  show ?case
  proof (cases "windowId a")
    case None
    then show ?thesis using Cons.IH [of acc] by simp
  next
    case (Some v)
    then show ?thesis
      using Cons.IH [of "AList.update v
                          ((case map_of acc v of None \<Rightarrow> [] | Some ts \<Rightarrow> ts) @ [a]) acc"]
      by (auto simp: tabsOfWindow_def update_conv' split: option.splits)
  qed
qed

lemma tabsOfWindow_tabsByWindowId:
  "tabsOfWindow (tabsByWindowId allTabs) w = filter (\<lambda>t. windowId t = Some w) allTabs"
  unfolding tabsByWindowId_def tabsOfWindow_fold by (simp add: tabsOfWindow_def)

text \<open>
  One group, evaluated again after its candidates (and perhaps more tabs) were evicted,
  with a \<open>toCut\<close> that has not grown, has no candidates.
\<close>

lemma length_filter_take_le: "length (filter R (take n xs)) \<le> length (filter R xs)"
proof -
  have "length (filter R xs) = length (filter R (take n xs @ drop n xs))" by simp
  also have "\<dots> = length (filter R (take n xs)) + length (filter R (drop n xs))"
    by (simp only: filter_append length_append)
  finally show ?thesis by simp
qed

lemma length_filter_filter_le: "length (filter R (filter S xs)) \<le> length (filter R xs)"
proof -
  have "filter R (filter S xs) = filter S (filter R xs)"
    by (simp add: conj_commute)
  then show ?thesis by (simp only: length_filter_le)
qed

lemma take_filter_within:
  assumes "n' \<le> length (filter Q (take n xs)) \<or> length xs \<le> n"
  shows "set (take n' (filter Q xs)) \<subseteq> set (filter Q (take n xs))"
proof (cases "length xs \<le> n")
  case True
  then show ?thesis by (auto dest: in_set_takeD)
next
  case False
  then have le: "n' \<le> length (filter Q (take n xs))" using assms by simp
  have "filter Q xs = filter Q (take n xs) @ filter Q (drop n xs)"
    by (metis append_take_drop_id filter_append)
  then have "take n' (filter Q xs) = take n' (filter Q (take n xs))"
    using le by simp
  then show ?thesis by (auto dest: in_set_takeD)
qed


lemma group_second_run_empty:
  assumes sub: "\<And>i. Some i \<in> toCut2 \<Longrightarrow> Some i \<in> toCut1"
      and ev: "\<And>t i. t \<in> set (candidatesOf cfg toCut1 G) \<Longrightarrow> tab_id t = Some i \<Longrightarrow> i \<in> E"
  shows "candidatesOf cfg toCut2 (filter (\<lambda>t. \<forall>i. tab_id t = Some i \<longrightarrow> i \<notin> E) G) = []"
proof -
  define should where "should = createShouldTabBeClosedFilter cfg"
  define keepE where "keepE = (\<lambda>t :: tab. \<forall>i. tab_id t = Some i \<longrightarrow> i \<notin> E)"
  define F where "F = filter should G"
  define F' where "F' = filter should (filter keepE G)"
  define m where "m = minTabs cfg"
  define n where "n = nat (int (length F) - m)"
  define n' where "n' = nat (int (length F') - m)"
  define T where "T = filter (inToCut toCut1) F"
  define P where "P = take n T"
  define Q where "Q = (\<lambda>t :: tab. keepE t \<and> inToCut toCut2 t)"
  have F'_F: "F' = filter keepE F"
    unfolding F'_def F_def by (simp add: conj_commute)
  show ?thesis
  proof (cases "int (length F') - m \<le> 0")
    case True
    then show ?thesis
      by (simp add: candidatesOf_def Let_def F'_def should_def keepE_def m_def)
  next
    case False
    have lenF: "length F' + length (filter (\<lambda>t. \<not> keepE t) F) = length F"
      unfolding F'_F by (rule sum_length_filter_compl)
    then have pos: "\<not> int (length F) - m \<le> 0" using False by linarith
    have cands1: "candidatesOf cfg toCut1 G = filter (\<lambda>t. tab_id t \<noteq> None) P"
      using pos by (simp add: candidatesOf_def Let_def F_def should_def m_def P_def T_def n_def)
    have P_keep: "tab_id t = None" if "t \<in> set P" "keepE t" for t
    proof (rule ccontr)
      assume "tab_id t \<noteq> None"
      then obtain i where i: "tab_id t = Some i" by auto
      then have "t \<in> set (candidatesOf cfg toCut1 G)" using that(1) cands1 by simp
      then have "i \<in> E" using ev i by blast
      then show False using that(2) i by (simp add: keepE_def)
    qed
    have Q_cut1: "inToCut toCut1 t" if "Q t" for t
      using that sub by (auto simp: Q_def inToCut_def split: option.splits)
    have T': "filter (inToCut toCut2) F' = filter Q T"
    proof -
      have "filter (inToCut toCut2) F' = filter Q F"
        unfolding F'_F Q_def by (simp add: conj_commute)
      also have "\<dots> = filter Q T"
        unfolding T_def using Q_cut1 by (auto intro: filter_cong)
      finally show ?thesis .
    qed
    have QP: "filter Q P = filter keepE P"
    proof (rule filter_cong [OF refl])
      fix t assume t: "t \<in> set P"
      show "Q t = keepE t"
        using P_keep [OF t] by (auto simp: Q_def inToCut_def)
    qed
    have within: "n' \<le> length (filter Q (take n T)) \<or> length T \<le> n"
    proof (cases "length T \<le> n")
      case True
      then show ?thesis by simp
    next
      case long: False
      then have lenP: "length P = n" by (simp add: P_def)
      have "length (filter (\<lambda>t. \<not> keepE t) P) \<le> length (filter (\<lambda>t. \<not> keepE t) T)"
        unfolding P_def by (rule length_filter_take_le)
      also have "\<dots> \<le> length (filter (\<lambda>t. \<not> keepE t) F)"
        unfolding T_def by (rule length_filter_filter_le)
      finally have p: "length (filter (\<lambda>t. \<not> keepE t) P) \<le> length (filter (\<lambda>t. \<not> keepE t) F)" .
      have "length (filter keepE P) + length (filter (\<lambda>t. \<not> keepE t) P) = n"
        using sum_length_filter_compl [of keepE P] lenP by simp
      then have "n' \<le> length (filter keepE P)"
        using p lenF False pos unfolding n'_def n_def by linarith
      then show ?thesis using QP by (simp add: P_def)
    qed
    have "set (take n' (filter Q T)) \<subseteq> set (filter Q (take n T))"
      by (rule take_filter_within [OF within])
    then have "tab_id t = None" if "t \<in> set (take n' (filter Q T))" for t
      using that P_keep [of t] by (auto simp: P_def Q_def)
    then have "filter (\<lambda>t. tab_id t \<noteq> None) (take n' (filter Q T)) = []"
      by (auto simp: filter_empty_conv)
    then show ?thesis
      using False T'
      by (simp add: candidatesOf_def Let_def F'_def should_def keepE_def m_def n'_def)
  qed
qed

lemma survivors_filter:
  "survivors cands G =
     filter (\<lambda>t. \<forall>i. tab_id t = Some i \<longrightarrow> i \<notin> {i. Some i \<in> set (map tab_id cands)}) G"
  unfolding survivors_def by (rule filter_cong [OF refl]) (auto split: option.splits)

lemma survivors_window:
  "filter (\<lambda>t. windowId t = Some w) (survivors cands G) =
     survivors cands (filter (\<lambda>t. windowId t = Some w) G)"
  unfolding survivors_def by (simp add: conj_commute)

lemma toCut_not_grown:
  assumes ent: "set tt' \<subseteq> set tt \<union> UNIV \<times> {u}"
      and nz: "cutOff \<noteq> 0" and le: "cutOff \<le> u"
      and i: "Some i \<in> set (getTabsOlderThan tt' cutOff)"
  shows "Some i \<in> set (getTabsOlderThan tt cutOff)"
proof -
  from i nz obtain v where v: "(IdKey i, v) \<in> set tt'" "v < cutOff"
    unfolding getTabsOlderThan_entries by (auto simp: image_iff)
  then have "(IdKey i, v) \<in> set tt" using ent le by auto
  then show ?thesis using v(2) unfolding getTabsOlderThan_entries by (auto simp: image_iff intro: exI [of _ "IdKey i"])
qed

lemma selectCandidates_closed_form:
  assumes "selectCandidates cfg env toCut u allTabs tt = Inr (cands, tt')"
  shows "(minTabsStrategy cfg = ''allWindows'' \<and> cands = candidatesOf cfg toCut allTabs) \<or>
         (minTabsStrategy cfg \<noteq> ''allWindows'' \<and>
          (\<exists>windows. windows_getAll env = Inr windows \<and>
             cands = concat (map (\<lambda>win. case win_id win of
                          None \<Rightarrow> []
                        | Some w \<Rightarrow> candidatesOf cfg toCut
                                     (filter (\<lambda>t. windowId t = Some w) allTabs)) windows)))"
proof (cases "minTabsStrategy cfg = ''allWindows''")
  case True
  then have "cands = fst (findTabsToCloseCandidates cfg toCut u allTabs False tt)"
    using assms by (auto simp: selectCandidates_def)
  then show ?thesis using True by (simp add: fst_findTabsToCloseCandidates)
next
  case False
  show ?thesis
  proof (cases "windows_getAll env")
    case (Inl e)
    then show ?thesis using assms False by (simp add: selectCandidates_def)
  next
    case (Inr windows)
    then have "cands = fst (perWindowCandidates cfg toCut u (tabsByWindowId allTabs) windows tt)"
      using assms False by (auto simp: selectCandidates_def)
    then show ?thesis using False Inr
      by (simp add: fst_perWindowCandidates tabsOfWindow_tabsByWindowId cong: option.case_cong)
  qed
qed

text \<open>
  Claim C9, as amended. Let a cycle succeed and return the candidates \<open>cands\<close>, and let a
  second cycle run at once: the clock still reads \<open>T\<close>, the settings are the same, the
  cache is the one the first cycle left, the live tabs are the tabs of the first cycle
  without the evicted ones, and the windows are the same. If \<open>stayOpen\<close> is not negative
  and the cutoff \<open>T - stayOpen\<close> is not 0, the second cycle returns no candidates.
\<close>

theorem second_run_has_no_candidates:
  assumes run1: "criticalSection cfg env1 (now_cutOff env1 - stayOpen cfg) c = (Inr cands, c1, evs)"
      and all1: "tabs_query_all env1 = Inr allTabs"
      and all2: "tabs_query_all env2 = Inr (survivors cands allTabs)"
      and act2: "tabs_query_active env2 = Inr activeTabs2"
      and win2: "windows_getAll env2 = windows_getAll env1"
      and clock: "now_cutOff env1 = T" "now_updatedAt env1 = T"
                 "now_cutOff env2 = T" "now_updatedAt env2 = T"
      and stay: "0 \<le> stayOpen cfg"
      and nz: "T - stayOpen cfg \<noteq> 0"
  shows "fst (criticalSection cfg env2 (now_cutOff env2 - stayOpen cfg) c1) = Inr []"
proof -
  define cutOff where "cutOff = T - stayOpen cfg"
  define toCut1 where "toCut1 = set (getTabsOlderThan (memoryTabTimes c) cutOff)"
  define toCut2 where "toCut2 = set (getTabsOlderThan (memoryTabTimes c1) cutOff)"
  define E where "E = {i. Some i \<in> set (map tab_id cands)}"
  have run1': "criticalSection cfg env1 cutOff c = (Inr cands, c1, evs)"
    using run1 clock(1) by (simp add: cutOff_def)
  obtain allTabs' activeTabs tt3 where
    a: "tabs_query_all env1 = Inr allTabs'"
    and act1: "tabs_query_active env1 = Inr activeTabs"
    and s: "selectCandidates cfg env1 (set (getTabsOlderThan (memoryTabTimes c) cutOff))
             (now_updatedAt env1) allTabs'
             (refreshAudibleTabs cfg (now_updatedAt env1) allTabs'
                (refreshActiveTabs (now_updatedAt env1) activeTabs (memoryTabTimes c)))
           = Inr (cands, tt3)"
    and c1: "c1 = recomputeAndPrune (now_updatedAt env1) allTabs' (c\<lparr>memoryTabTimes := tt3\<rparr>)"
    by (rule criticalSection_success [OF run1'])
  have "allTabs' = allTabs" using a all1 by simp
  then have sel1: "selectCandidates cfg env1 toCut1 T allTabs
             (refreshAudibleTabs cfg T allTabs (refreshActiveTabs T activeTabs (memoryTabTimes c)))
           = Inr (cands, tt3)"
    using s clock(2) by (simp add: toCut1_def)
  have ent: "set (memoryTabTimes c1) \<subseteq> set (memoryTabTimes c) \<union> UNIV \<times> {T}"
    using criticalSection_entries [OF run1'] clock(2) by simp
  have sub: "Some i \<in> toCut1" if "Some i \<in> toCut2" for i
    using toCut_not_grown [OF ent, of cutOff i] nz stay that
    by (simp add: cutOff_def toCut1_def toCut2_def)
  have group: "candidatesOf cfg toCut2 (survivors cands G) = []"
    if "\<And>t. t \<in> set (candidatesOf cfg toCut1 G) \<Longrightarrow> t \<in> set cands" for G
  proof -
    have ev: "i \<in> E" if "t \<in> set (candidatesOf cfg toCut1 G)" "tab_id t = Some i" for t i
      using \<open>\<And>t. t \<in> set (candidatesOf cfg toCut1 G) \<Longrightarrow> t \<in> set cands\<close> [OF that(1)] that(2)
      by (force simp: E_def)
    show ?thesis
      unfolding survivors_filter E_def [symmetric]
      by (rule group_second_run_empty [OF sub ev])
  qed
  let ?tt2 = "refreshAudibleTabs cfg T (survivors cands allTabs)
                (refreshActiveTabs T activeTabs2 (memoryTabTimes c1))"
  have sel2: "\<exists>tt. selectCandidates cfg env2 toCut2 T (survivors cands allTabs) ?tt2 = Inr ([], tt)"
  proof (cases "minTabsStrategy cfg = ''allWindows''")
    case True
    have "cands = candidatesOf cfg toCut1 allTabs"
      using selectCandidates_closed_form [OF sel1] True by simp
    then have "candidatesOf cfg toCut2 (survivors cands allTabs) = []"
      using group [of allTabs] by simp
    then have "fst (findTabsToCloseCandidates cfg toCut2 T (survivors cands allTabs) False ?tt2) = []"
      by (simp add: fst_findTabsToCloseCandidates)
    then show ?thesis using True
      by (simp add: selectCandidates_def) (metis prod.collapse)
  next
    case False
    from selectCandidates_closed_form [OF sel1] False obtain windows where
      w1: "windows_getAll env1 = Inr windows"
      and cands: "cands = concat (map (\<lambda>win. case win_id win of
                          None \<Rightarrow> []
                        | Some w \<Rightarrow> candidatesOf cfg toCut1
                                     (filter (\<lambda>t. windowId t = Some w) allTabs)) windows)"
      by auto
    have each: "(case win_id win of
                   None \<Rightarrow> []
                 | Some w \<Rightarrow> candidatesOf cfg toCut2
                     (tabsOfWindow (tabsByWindowId (survivors cands allTabs)) w)) = []"
      if "win \<in> set windows" for win
    proof (cases "win_id win")
      case None
      then show ?thesis by simp
    next
      case (Some w)
      have "t \<in> set cands"
        if "t \<in> set (candidatesOf cfg toCut1 (filter (\<lambda>t. windowId t = Some w) allTabs))" for t
        unfolding cands using that \<open>win \<in> set windows\<close> Some
        by (auto intro!: bexI [of _ win])
      from group [OF this] show ?thesis
        using Some by (simp add: tabsOfWindow_tabsByWindowId survivors_window)
    qed
    have "fst (perWindowCandidates cfg toCut2 T (tabsByWindowId (survivors cands allTabs))
                 windows ?tt2) = []"
      unfolding fst_perWindowCandidates using each by simp
    then show ?thesis using False w1 win2
      by (simp add: selectCandidates_def) (metis prod.collapse)
  qed
  then obtain tt where sel2': "selectCandidates cfg env2 toCut2 T (survivors cands allTabs) ?tt2
       = Inr ([], tt)" by blast
  have "fst (criticalSection cfg env2 cutOff c1) = Inr []"
    by (simp only: criticalSection_unfold [OF all2 act2] clock(4) toCut2_def [symmetric] sel2'
          sum.case prod.case fst_conv)
  then show ?thesis by (simp only: clock(3) cutOff_def)
qed

theorem second_run_has_no_candidates_witness:
  "fst (criticalSection (exampleSettings 2 [])
          (exampleEnv 1000 [plainTab 2 ''b'' 5, plainTab 3 ''c'' 5] []
             [\<lparr>win_id = Some 5, focused = True\<rparr>])
          900
          (fst (snd (criticalSection (exampleSettings 2 [])
             (exampleEnv 1000 [plainTab 1 ''a'' 5, plainTab 2 ''b'' 5, plainTab 3 ''c'' 5] []
                [\<lparr>win_id = Some 5, focused = True\<rparr>])
             900 (exampleCache [(IdKey 1, 20), (IdKey 2, 10), (IdKey 3, 15)]))))) = Inr []"
proof -
  let ?cfg = "exampleSettings 2 []"
  let ?win = "[\<lparr>win_id = Some 5, focused = True\<rparr>]"
  let ?all = "[plainTab 1 ''a'' 5, plainTab 2 ''b'' 5, plainTab 3 ''c'' 5]"
  let ?env1 = "exampleEnv 1000 ?all [] ?win"
  let ?env2 = "exampleEnv 1000 [plainTab 2 ''b'' 5, plainTab 3 ''c'' 5] [] ?win"
  let ?c = "exampleCache [(IdKey 1, 20), (IdKey 2, 10), (IdKey 3, 15)]"
  have first: "fst (criticalSection ?cfg ?env1 900 ?c) = Inr [plainTab 1 ''a'' 5]"
    by (simp add: cycle_defs find_defs inToCut_def Let_def)
  have run1: "criticalSection ?cfg ?env1 (now_cutOff ?env1 - stayOpen ?cfg) ?c =
                (Inr [plainTab 1 ''a'' 5], fst (snd (criticalSection ?cfg ?env1 900 ?c)),
                 snd (snd (criticalSection ?cfg ?env1 900 ?c)))"
    using first by (simp add: prod_eq_iff)
  have all2: "tabs_query_all ?env2 = Inr (survivors [plainTab 1 ''a'' 5] ?all)"
    by (simp add: survivors_def)
  have stay: "0 \<le> stayOpen ?cfg" and nz: "(1000::int) - stayOpen ?cfg \<noteq> 0" by simp_all
  from second_run_has_no_candidates [OF run1 exampleEnv_simps(1) all2 exampleEnv_simps(2) _ exampleEnv_simps(5)
      exampleEnv_simps(4) exampleEnv_simps(5) exampleEnv_simps(4) stay nz]
  show ?thesis by simp
qed

text \<open>
  With the cutoff 0 the claim fails. The clock reads 100 and \<open>stayOpen\<close> is 100; one tab
  is open, not yet in the cache. The first cycle returns no candidates and enters the tab in
  the cache; the second cycle, at the same clock time, finds every cached id in \<open>toCut\<close>
  and returns the tab as a candidate.
\<close>

theorem zero_cutOff_second_run_evicts:
  "fst (criticalSection (exampleSettings 0 [])
          (exampleEnv 100 [plainTab 1 ''a'' 5] [plainTab 1 ''a'' 5]
             [\<lparr>win_id = Some 5, focused = True\<rparr>])
          (100 - stayOpen (exampleSettings 0 [])) (exampleCache [])) = Inr [] \<and>
   fst (criticalSection (exampleSettings 0 [])
          (exampleEnv 100 [plainTab 1 ''a'' 5] [plainTab 1 ''a'' 5]
             [\<lparr>win_id = Some 5, focused = True\<rparr>])
          (100 - stayOpen (exampleSettings 0 []))
          (fst (snd (criticalSection (exampleSettings 0 [])
             (exampleEnv 100 [plainTab 1 ''a'' 5] [plainTab 1 ''a'' 5]
                [\<lparr>win_id = Some 5, focused = True\<rparr>])
             (100 - stayOpen (exampleSettings 0 [])) (exampleCache []))))) =
     Inr [plainTab 1 ''a'' 5]"
  by (simp add: cycle_defs find_defs inToCut_def Let_def)

end
